theory Spec2Isabelle
  imports Complex_Main
begin

section \<open>JavaScript values, strings and objects\<close>

text \<open>
  Strings are lists of 8-bit characters, read as UTF-16 code units below 256 (ASCII and
  Latin-1).  \<open>is_space\<close> is the regular-expression class \<^verbatim>\<open>\s\<close> on that range and
  \<open>to_lower\<close> is \<^verbatim>\<open>String.prototype.toLowerCase\<close> on that range.
\<close>

definition is_space :: "char \<Rightarrow> bool" where
  "is_space c = (c \<in> {CHR 0x09, CHR 0x0A, CHR 0x0B, CHR 0x0C, CHR 0x0D, CHR '' '', CHR 0xA0})"

definition to_lower :: "char \<Rightarrow> char" where
  "to_lower c = (let n = (of_char c :: nat) in
     if (65 \<le> n \<and> n \<le> 90) \<or> (192 \<le> n \<and> n \<le> 222 \<and> n \<noteq> 215)
     then char_of (n + 32) else c)"

text \<open>
  A value held in a contact, in ledger metadata or in the persisted ledger.  A number is
  carried as the text that \<^verbatim>\<open>Number.prototype.toString\<close> gives for it (the CSV reader
  is set to \<^verbatim>\<open>cast: true\<close>, so a numeric cell arrives as a number); it is falsy when
  that text is \<^verbatim>\<open>0\<close> or \<^verbatim>\<open>NaN\<close>.  An object is its list of own properties in
  \<^verbatim>\<open>Object.keys\<close> order.
\<close>

datatype jsval = JStr string | JNum string | JNull | JObj "(string \<times> jsval) list"

type_synonym jsobj = "(string \<times> jsval) list"
type_synonym contact = jsobj

fun truthy :: "jsval \<Rightarrow> bool" where
  "truthy (JStr s) = (s \<noteq> [])"
| "truthy (JNum s) = (s \<noteq> ''0'' \<and> s \<noteq> ''NaN'')"
| "truthy JNull = False"
| "truthy (JObj _) = True"

text \<open>String conversion of a value, as a template literal or \<^verbatim>\<open>toString()\<close> performs it.\<close>

fun js_string :: "jsval \<Rightarrow> string" where
  "js_string (JStr s) = s"
| "js_string (JNum s) = s"
| "js_string JNull = ''null''"
| "js_string (JObj _) = ''[object Object]''"

definition js_get :: "jsobj \<Rightarrow> string \<Rightarrow> jsval option" where
  "js_get obj key = map_of obj key"

text \<open>Assignment \<^verbatim>\<open>obj[key] = v\<close>: an existing property keeps its place, a new one goes last.\<close>

fun js_set :: "string \<Rightarrow> jsval \<Rightarrow> jsobj \<Rightarrow> jsobj" where
  "js_set key v [] = [(key, v)]"
| "js_set key v ((k, x) # rest) =
     (if k = key then (k, v) # rest else (k, x) # js_set key v rest)"

definition js_delete :: "string \<Rightarrow> jsobj \<Rightarrow> jsobj" where
  "js_delete key obj = filter (\<lambda>p. fst p \<noteq> key) obj"

definition js_has :: "string \<Rightarrow> jsobj \<Rightarrow> bool" where
  "js_has key obj = (key \<in> set (map fst obj))"

section \<open>csvParser.js: validateContacts\<close>

text \<open>\<^verbatim>\<open>key.toLowerCase().replace(/[_\s-]/g, '')\<close>\<close>

definition normalizeKey :: "string \<Rightarrow> string" where
  "normalizeKey key =
     filter (\<lambda>c. \<not> (c = CHR ''_'' \<or> is_space c \<or> c = CHR ''-'')) (map to_lower key)"

definition isPhoneKey :: "string \<Rightarrow> bool" where
  "isPhoneKey key = (normalizeKey key = ''phone'' \<or> normalizeKey key = ''phonenumber'')"

text \<open>\<^verbatim>\<open>Object.keys(contact).find(...)\<close>: the first key that normalises to a phone name.\<close>

definition phoneField :: "contact \<Rightarrow> string option" where
  "phoneField contact = find isPhoneKey (map fst contact)"

text \<open>
  \<^verbatim>\<open>replace(/[\s-()]/g, '')\<close>: the class holds white space, the dash and both
  parentheses (next to the class escape the dash is literal).
\<close>

definition isSeparator :: "char \<Rightarrow> bool" where
  "isSeparator c = (is_space c \<or> c = CHR ''-'' \<or> c = CHR ''('' \<or> c = CHR '')'')"

definition cleanPhone :: "string \<Rightarrow> string" where
  "cleanPhone s = filter (\<lambda>c. \<not> isSeparator c) s"

definition startsWithPlus :: "string \<Rightarrow> bool" where
  "startsWithPlus s = (case s of [] \<Rightarrow> False | c # _ \<Rightarrow> c = CHR ''+'')"

record invalid_row =
  index :: nat
  contact :: contact
  reason :: string

text \<open>
  The body of the \<^verbatim>\<open>forEach\<close> callback.  In the accepting branch the value \<open>v\<close> found
  under the phone field is what \<^verbatim>\<open>contact.phone\<close> holds after the renaming (lemma
  \<open>phone_after_rename\<close> below), so the cleaning reads \<open>v\<close>.
\<close>

definition renamePhone :: "string \<Rightarrow> jsval \<Rightarrow> contact \<Rightarrow> contact" where
  "renamePhone pf v c =
     (if pf \<noteq> ''phone'' then js_delete pf (js_set ''phone'' v c) else c)"

definition normalisedPhone :: "jsval \<Rightarrow> string" where
  "normalisedPhone v =
     (let p = cleanPhone (js_string v) in if startsWithPlus p then p else CHR ''+'' # p)"

definition validateContact :: "nat \<Rightarrow> contact \<Rightarrow> invalid_row + contact" where
  "validateContact i c =
     (let missing = Inl \<lparr>index = i + 2, contact = c, reason = ''Missing phone number''\<rparr> in
      case phoneField c of
        None \<Rightarrow> missing
      | Some pf \<Rightarrow>
          (case js_get c pf of
             None \<Rightarrow> missing
           | Some v \<Rightarrow>
               if pf \<noteq> [] \<and> truthy v
               then Inr (js_set ''phone'' (JStr (normalisedPhone v)) (renamePhone pf v c))
               else missing))"

fun validateFrom ::
  "nat \<Rightarrow> contact list \<Rightarrow> contact list \<Rightarrow> invalid_row list \<Rightarrow> contact list \<times> invalid_row list"
where
  "validateFrom i [] valid invalid = (valid, invalid)"
| "validateFrom i (c # cs) valid invalid =
     (case validateContact i c of
        Inr c' \<Rightarrow> validateFrom (Suc i) cs (valid @ [c']) invalid
      | Inl r \<Rightarrow> validateFrom (Suc i) cs valid (invalid @ [r]))"

definition validateContacts :: "contact list \<Rightarrow> contact list \<times> invalid_row list" where
  "validateContacts contacts = validateFrom 0 contacts [] []"

text \<open>
  The format the specification demands of a normalised phone: a plus sign, then digits only.
\<close>

definition isDigit :: "char \<Rightarrow> bool" where
  "isDigit c = (c \<in> set ''0123456789'')"

definition internationalFormat :: "string \<Rightarrow> bool" where
  "internationalFormat s =
     (case s of [] \<Rightarrow> False | c # r \<Rightarrow> c = CHR ''+'' \<and> list_all isDigit r)"

text \<open>What the code establishes: a plus sign, then no separator character.\<close>

definition plusNoSeparators :: "string \<Rightarrow> bool" where
  "plusNoSeparators s =
     (case s of [] \<Rightarrow> False | c # r \<Rightarrow> c = CHR ''+'' \<and> list_all (\<lambda>x. \<not> isSeparator x) r)"

section \<open>The world outside the program\<close>

text \<open>
  The ledger as the tracker holds it (\<^verbatim>\<open>this.state\<close>) and as the state file stores it.
  A stored file that parses is taken to hold an object under \<^verbatim>\<open>sentMessages\<close> and to
  come back from \<^verbatim>\<open>JSON.parse\<close> as \<^verbatim>\<open>JSON.stringify\<close> wrote it.
\<close>

record tracker =
  sentMessages :: jsobj
  lastUpdated :: jsval

text \<open>
  The state file: \<open>Missing\<close> when \<^verbatim>\<open>fs.access\<close> rejects, \<open>Garbled\<close> (with the error
  message) when the file is there but reading or parsing it throws, or when the parsed value
  has no \<^verbatim>\<open>sentMessages\<close>.
\<close>

datatype disk = Missing | Garbled string | Stored tracker

text \<open>The effects a run has on the outside, in the order they happen.\<close>

datatype event =
    Slept real
  | Invoked nat
  | Paced
  | Constructed
  | Launched
  | SendMessage string string "string option" "string option"
  | Wrote tracker
  | WriteFailed
  | Screenshot string
  | Closed

record world =
  now :: real
  disk :: disk
  trace :: "event list"
  sendCount :: nat
  writeCount :: nat

datatype launch = LaunchFailed string | NotReady string | Ready

text \<open>
  The retry section of the configuration; an absent field takes the default of the
  destructuring in \<^verbatim>\<open>retryWithBackoff\<close>.  The other fields of the configuration the
  orchestrator reads.
\<close>

record retry_config =
  max_attempts :: "int option"
  initial_delay_ms :: "real option"
  max_delay_ms :: "real option"
  backoff_multiplier :: "real option"

record config =
  message_template :: "string option"
  image_path :: "string option"
  image_caption :: "string option"
  retry :: retry_config
  rate_limit :: real

text \<open>
  What the program cannot decide: the digest, the regular-expression engine, the date
  printer, the files it reads (configuration, contacts, template), and how each transport
  call, each write of the state file and each timer turns out.
  \<^item> \<open>sha256 s\<close> is \<^verbatim>\<open>createHash('sha256').update(s).digest('hex')\<close>;
  \<^item> \<open>regexReplace src subject repl\<close> is
    \<^verbatim>\<open>subject.replace(new RegExp(src, 'gi'), repl)\<close>, \<open>Inl\<close> the message when the
    pattern does not compile;
  \<^item> \<open>toISOString t\<close> is \<^verbatim>\<open>new Date(t).toISOString()\<close>;
  \<^item> \<open>sendFailure k\<close> is the error message of the \<open>k\<close>-th call of
    \<^verbatim>\<open>sendMessage\<close> (counted from 0), \<open>None\<close> when it delivers, and
    \<open>sendDuration k\<close> the time it takes;
  \<^item> \<open>writeFailure k\<close> is the error message of the \<open>k\<close>-th \<^verbatim>\<open>save()\<close> (its
    \<^verbatim>\<open>mkdir\<close> and \<^verbatim>\<open>writeFile\<close>), \<open>None\<close> when the file is written; a failed
    write leaves the file as it was;
  \<^item> \<open>overshoot n\<close> is how much later than asked the timer set after \<open>n\<close> effects fires.
  Logging, \<^verbatim>\<open>browser.close()\<close> and the screenshot (which catches its own errors) are
  taken not to throw.
\<close>

record env =
  sha256 :: "string \<Rightarrow> string"
  regexReplace :: "string \<Rightarrow> string \<Rightarrow> string \<Rightarrow> string + string"
  toISOString :: "real \<Rightarrow> string"
  sendFailure :: "nat \<Rightarrow> string option"
  sendDuration :: "nat \<Rightarrow> real"
  writeFailure :: "nat \<Rightarrow> string option"
  overshoot :: "nat \<Rightarrow> real"
  configFile :: "string + config"
  contactsCsv :: "string + contact list"
  templateFile :: "string + string"
  browserLaunch :: launch

section \<open>retryLogic: sleep, retryWithBackoff, RateLimiter\<close>

definition sleep :: "env \<Rightarrow> real \<Rightarrow> world \<Rightarrow> world" where
  "sleep e ms w =
     w\<lparr>now := now w + max ms 0 + overshoot e (length (trace w)),
       trace := trace w @ [Slept ms]\<rparr>"

definition orDefault :: "'a option \<Rightarrow> 'a \<Rightarrow> 'a" where
  "orDefault x d = (case x of None \<Rightarrow> d | Some v \<Rightarrow> v)"

text \<open>Decimal text of an integer, as a template literal prints it.\<close>

fun showNat :: "nat \<Rightarrow> string" where
  "showNat n = (if n < 10 then [''0123456789'' ! n] else showNat (n div 10) @ [''0123456789'' ! (n mod 10)])"

definition showInt :: "int \<Rightarrow> string" where
  "showInt i = (if i < 0 then CHR ''-'' # showNat (nat (- i)) else showNat (nat i))"

definition exhaustedMessage :: "int \<Rightarrow> string \<Rightarrow> string" where
  "exhaustedMessage n msg =
     ''Operation failed after '' @ showInt n @ '' attempts. Last error: '' @ msg"

text \<open>
  The \<^verbatim>\<open>for\<close> loop of \<^verbatim>\<open>retryWithBackoff\<close>, with what follows it.  \<open>fn\<close> is the operation:
  it acts on the world and returns or throws.  With no attempt made, \<^verbatim>\<open>lastError\<close> is
  undefined and reading its message is a TypeError.
\<close>

function retryLoop ::
  "env \<Rightarrow> (world \<Rightarrow> (string + 'a) \<times> world) \<Rightarrow> int \<Rightarrow> real \<Rightarrow> real \<Rightarrow>
   int \<Rightarrow> real \<Rightarrow> string option \<Rightarrow> world \<Rightarrow> (string + 'a) \<times> world"
where
  "retryLoop e fn maxA maxD mult attempt delay lastError w =
     (if attempt \<le> maxA then
        (case fn w of
           (Inr result, w1) \<Rightarrow> (Inr result, w1)
         | (Inl err, w1) \<Rightarrow>
             if attempt < maxA
             then retryLoop e fn maxA maxD mult (attempt + 1) (min (delay * mult) maxD)
                    (Some err) (sleep e delay w1)
             else retryLoop e fn maxA maxD mult (attempt + 1) delay (Some err) w1)
      else
        (case lastError of
           None \<Rightarrow> (Inl ''TypeError: lastError is undefined'', w)
         | Some err \<Rightarrow> (Inl (exhaustedMessage maxA err), w)))"
  by pat_completeness auto
termination
  by (relation "measure (\<lambda>(e, fn, maxA, maxD, mult, attempt, delay, lastError, w).
        nat (maxA + 1 - attempt))") auto

declare retryLoop.simps [simp del]

definition retryWithBackoff ::
  "env \<Rightarrow> (world \<Rightarrow> (string + 'a) \<times> world) \<Rightarrow> retry_config \<Rightarrow> world \<Rightarrow> (string + 'a) \<times> world"
where
  "retryWithBackoff e fn cfg w =
     retryLoop e fn (orDefault (max_attempts cfg) 3) (orDefault (max_delay_ms cfg) 10000)
       (orDefault (backoff_multiplier cfg) 2) 1 (orDefault (initial_delay_ms cfg) 1000) None w"

text \<open>
  An operation that only records that it was invoked and answers from a table: its \<open>k\<close>-th
  invocation (counted from 1) returns or throws \<open>outcomes k\<close>.
\<close>

definition invocations :: "world \<Rightarrow> nat" where
  "invocations w = length (filter (\<lambda>ev. case ev of Invoked _ \<Rightarrow> True | _ \<Rightarrow> False) (trace w))"

definition probe :: "(nat \<Rightarrow> string + 'a) \<Rightarrow> world \<Rightarrow> (string + 'a) \<times> world" where
  "probe outcomes w =
     (let k = invocations w + 1 in (outcomes k, w\<lparr>trace := trace w @ [Invoked k]\<rparr>))"

text \<open>
  What the specification lays down for the effects of a retried operation: attempts
  \<open>k, k+1, \<dots>\<close> with a sleep between two attempts, the first sleep \<open>d\<close> long and each
  next one \<open>min (d * mult) maxD\<close>.
\<close>

fun schedule :: "nat \<Rightarrow> nat \<Rightarrow> real \<Rightarrow> real \<Rightarrow> real \<Rightarrow> event list" where
  "schedule k 0 d mult maxD = []"
| "schedule k (Suc 0) d mult maxD = [Invoked k]"
| "schedule k (Suc (Suc n)) d mult maxD =
     Invoked k # Slept d # schedule (Suc k) (Suc n) (min (d * mult) maxD) mult maxD"

record RateLimiter =
  messagesPerSecond :: real
  minDelayMs :: real
  lastMessageTime :: real

text \<open>The constructor, for a rate other than 0 (where JavaScript divides to infinity).\<close>

definition newRateLimiter :: "real \<Rightarrow> RateLimiter" where
  "newRateLimiter r = \<lparr>messagesPerSecond = r, minDelayMs = 1000 / r, lastMessageTime = 0\<rparr>"

text \<open>
  \<^verbatim>\<open>wait()\<close>: the sleep it asks for, if any, and the whole call.  \<open>Paced\<close> marks the call.
\<close>

definition delayNeeded :: "RateLimiter \<Rightarrow> real \<Rightarrow> real option" where
  "delayNeeded rl t =
     (let timeSinceLastMessage = t - lastMessageTime rl in
      if timeSinceLastMessage < minDelayMs rl
      then Some (minDelayMs rl - timeSinceLastMessage) else None)"

definition wait :: "env \<Rightarrow> RateLimiter \<Rightarrow> world \<Rightarrow> RateLimiter \<times> world" where
  "wait e rl w =
     (let w0 = w\<lparr>trace := trace w @ [Paced]\<rparr>;
          w1 = (case delayNeeded rl (now w0) of Some d \<Rightarrow> sleep e d w0 | None \<Rightarrow> w0)
      in (rl\<lparr>lastMessageTime := now w1\<rparr>, w1))"

text \<open>Time that passes between two calls without the program doing anything.\<close>

definition idle :: "real \<Rightarrow> world \<Rightarrow> world" where
  "idle gap w = w\<lparr>now := now w + gap\<rparr>"

text \<open>Consecutive calls of \<^verbatim>\<open>wait()\<close>, the \<open>i\<close>-th after an idle time \<open>gaps ! i\<close>.\<close>

fun waits :: "env \<Rightarrow> real list \<Rightarrow> RateLimiter \<Rightarrow> world \<Rightarrow> RateLimiter \<times> world" where
  "waits e [] rl w = (rl, w)"
| "waits e (gap # gaps) rl w = (case wait e rl (idle gap w) of (rl', w') \<Rightarrow> waits e gaps rl' w')"

section \<open>templateRenderer.js: renderTemplate\<close>

text \<open>
  The sources of the three patterns built for a field: \<^verbatim>\<open>\{\{field\}\}\<close>,
  \<^verbatim>\<open>\{field\}\<close> and \<^verbatim>\<open>\$\{field\}\<close>.  The field name goes into the pattern as it is.
\<close>

definition placeholderPatterns :: "string \<Rightarrow> string list" where
  "placeholderPatterns field =
     [[CHR 0x5C, CHR ''{'', CHR 0x5C, CHR ''{''] @ field @ [CHR 0x5C, CHR ''}'', CHR 0x5C, CHR ''}''],
      [CHR 0x5C, CHR ''{''] @ field @ [CHR 0x5C, CHR ''}''],
      [CHR 0x5C, CHR ''$'', CHR 0x5C, CHR ''{''] @ field @ [CHR 0x5C, CHR ''}'']]"

fun applyPatterns :: "env \<Rightarrow> string list \<Rightarrow> string \<Rightarrow> string \<Rightarrow> string + string" where
  "applyPatterns e [] v rendered = Inr rendered"
| "applyPatterns e (pat # pats) v rendered =
     (case regexReplace e pat rendered v of
        Inl err \<Rightarrow> Inl err
      | Inr r \<Rightarrow> applyPatterns e pats v r)"

text \<open>\<^verbatim>\<open>contact[field] || ''\<close>, as the replacement text.\<close>

definition fieldValue :: "contact \<Rightarrow> string \<Rightarrow> string" where
  "fieldValue c field =
     (case js_get c field of None \<Rightarrow> [] | Some v \<Rightarrow> if truthy v then js_string v else [])"

fun renderFields :: "env \<Rightarrow> contact \<Rightarrow> string list \<Rightarrow> string \<Rightarrow> string + string" where
  "renderFields e c [] rendered = Inr rendered"
| "renderFields e c (field # others) rendered =
     (case applyPatterns e (placeholderPatterns field) (fieldValue c field) rendered of
        Inl err \<Rightarrow> Inl err
      | Inr r \<Rightarrow> renderFields e c others r)"

definition renderTemplate :: "env \<Rightarrow> string \<Rightarrow> contact \<Rightarrow> string + string" where
  "renderTemplate e template c = renderFields e c (map fst c) template"

section \<open>stateTracker: StateTracker\<close>

definition newStateTracker :: tracker where
  "newStateTracker = \<lparr>sentMessages = [], lastUpdated = JNull\<rparr>"

text \<open>The text that is hashed, and the fingerprint.\<close>

definition hashContent :: "string \<Rightarrow> string \<Rightarrow> string" where
  "hashContent phone message = phone @ '':'' @ message"

definition generateHash :: "env \<Rightarrow> string \<Rightarrow> string \<Rightarrow> string" where
  "generateHash e phone message = sha256 e (hashContent phone message)"

text \<open>
  \<^verbatim>\<open>save()\<close> stamps the state, then writes it.  The result is the error thrown, if any,
  with the tracker and the world as the call leaves them.
\<close>

definition save :: "env \<Rightarrow> tracker \<Rightarrow> world \<Rightarrow> string option \<times> tracker \<times> world" where
  "save e t w =
     (let t1 = t\<lparr>lastUpdated := JStr (toISOString e (now w))\<rparr>; k = writeCount w in
      case writeFailure e k of
        None \<Rightarrow>
          (None, t1, w\<lparr>disk := Stored t1, writeCount := k + 1, trace := trace w @ [Wrote t1]\<rparr>)
      | Some err \<Rightarrow>
          (Some err, t1, w\<lparr>writeCount := k + 1, trace := trace w @ [WriteFailed]\<rparr>))"

definition load :: "env \<Rightarrow> tracker \<Rightarrow> world \<Rightarrow> string option \<times> tracker \<times> world" where
  "load e t w =
     (case disk w of
        Missing \<Rightarrow> save e t w
      | Garbled err \<Rightarrow> (Some err, t, w)
      | Stored s \<Rightarrow> (None, s, w))"

definition wasMessageSent :: "env \<Rightarrow> tracker \<Rightarrow> string \<Rightarrow> string \<Rightarrow> bool" where
  "wasMessageSent e t phone message = js_has (generateHash e phone message) (sentMessages t)"

text \<open>\<^verbatim>\<open>this.state.sentMessages[hash] || null\<close>; \<open>None\<close> is \<^verbatim>\<open>null\<close>.\<close>

definition getMessageInfo :: "env \<Rightarrow> tracker \<Rightarrow> string \<Rightarrow> string \<Rightarrow> jsval option" where
  "getMessageInfo e t phone message =
     (case js_get (sentMessages t) (generateHash e phone message) of
        None \<Rightarrow> None
      | Some v \<Rightarrow> if truthy v then Some v else None)"

text \<open>
  The entry \<^verbatim>\<open>{ phone, messageHash: hash, timestamp, ...metadata }\<close>: the properties of
  the metadata are spread over the three fixed ones.
\<close>

definition ledgerEntry :: "env \<Rightarrow> string \<Rightarrow> string \<Rightarrow> real \<Rightarrow> jsobj \<Rightarrow> jsval" where
  "ledgerEntry e phone hash t metadata =
     JObj (fold (\<lambda>p obj. js_set (fst p) (snd p) obj) metadata
        [(''phone'', JStr phone), (''messageHash'', JStr hash),
         (''timestamp'', JStr (toISOString e t))])"

definition markAsSent ::
  "env \<Rightarrow> string \<Rightarrow> string \<Rightarrow> jsobj \<Rightarrow> tracker \<Rightarrow> world \<Rightarrow> string option \<times> tracker \<times> world"
where
  "markAsSent e phone message metadata t w =
     (let hash = generateHash e phone message;
          t1 = t\<lparr>sentMessages :=
                  js_set hash (ledgerEntry e phone hash (now w) metadata) (sentMessages t)\<rparr>
      in save e t1 w)"

text \<open>The three operations of the send path, as calls on a tracker.\<close>

datatype ledger_op =
    WasMessageSent string string
  | GetMessageInfo string string
  | MarkAsSent string string jsobj

fun isMark :: "ledger_op \<Rightarrow> bool" where
  "isMark (MarkAsSent _ _ _) = True"
| "isMark _ = False"

fun applyOp :: "env \<Rightarrow> ledger_op \<Rightarrow> tracker \<times> world \<Rightarrow> tracker \<times> world" where
  "applyOp e (WasMessageSent phone message) (t, w) = (t, w)"
| "applyOp e (GetMessageInfo phone message) (t, w) = (t, w)"
| "applyOp e (MarkAsSent phone message metadata) (t, w) =
     (case markAsSent e phone message metadata t w of (_, t', w') \<Rightarrow> (t', w'))"

fun applyOps :: "env \<Rightarrow> ledger_op list \<Rightarrow> tracker \<times> world \<Rightarrow> tracker \<times> world" where
  "applyOps e [] s = s"
| "applyOps e (op # ops) s = applyOps e ops (applyOp e op s)"

text \<open>How often a fingerprint occurs as a key of the ledger.\<close>

definition entriesFor :: "string \<Rightarrow> tracker \<Rightarrow> nat" where
  "entriesFor hash t = length (filter (\<lambda>p. fst p = hash) (sentMessages t))"

text \<open>
  \<^verbatim>\<open>getStats()\<close>: the number of entries, the number of distinct phones among them and
  the time of the last save.  It reads the \<^verbatim>\<open>phone\<close> of every entry, which throws
  when an entry is \<^verbatim>\<open>null\<close> (no entry that \<^verbatim>\<open>markAsSent\<close> writes is, but a state
  file may hold one).
\<close>

definition noNullEntry :: "jsobj \<Rightarrow> bool" where
  "noNullEntry ledger = list_all (\<lambda>p. snd p \<noteq> JNull) ledger"

definition entryPhone :: "jsval \<Rightarrow> jsval option" where
  "entryPhone m = (case m of JObj entry \<Rightarrow> js_get entry ''phone'' | _ \<Rightarrow> None)"

definition getStats :: "tracker \<Rightarrow> string + nat \<times> nat \<times> jsval" where
  "getStats t =
     (if noNullEntry (sentMessages t)
      then Inr (length (sentMessages t),
                length (remdups (map (\<lambda>p. entryPhone (snd p)) (sentMessages t))),
                lastUpdated t)
      else Inl ''TypeError: Cannot read properties of null'')"

section \<open>whatsappAutomation.js: the transport\<close>

definition sendMessage ::
  "env \<Rightarrow> string \<Rightarrow> string \<Rightarrow> string option \<Rightarrow> string option \<Rightarrow> world \<Rightarrow> (string + unit) \<times> world"
where
  "sendMessage e phone message imagePath caption w =
     (let k = sendCount w;
          w1 = w\<lparr>now := now w + sendDuration e k, sendCount := k + 1,
                 trace := trace w @ [SendMessage phone message imagePath caption]\<rparr>
      in (case sendFailure e k of None \<Rightarrow> Inr () | Some err \<Rightarrow> Inl err, w1))"

definition takeScreenshot :: "string \<Rightarrow> world \<Rightarrow> world" where
  "takeScreenshot filename w = w\<lparr>trace := trace w @ [Screenshot filename]\<rparr>"

section \<open>index.js: WhatsAppAutomationApp\<close>

record app =
  dryRun :: bool
  stateTracker :: tracker
  rateLimiter :: RateLimiter
  whatsapp :: bool
  browser :: bool

record stats =
  total :: nat
  sent :: nat
  skipped :: nat
  failed :: nat

datatype 'a completion = Threw string | Returned 'a


text \<open>\<^verbatim>\<open>this.whatsapp.initialize()\<close>; the browser object exists once the launch succeeded.\<close>

definition launchBrowser :: "env \<Rightarrow> app \<Rightarrow> world \<Rightarrow> string option \<times> app \<times> world" where
  "launchBrowser e a w =
     (if \<not> whatsapp a then (Some ''TypeError: whatsapp is null'', a, w)
      else
        (case browserLaunch e of
           LaunchFailed err \<Rightarrow> (Some err, a, w)
         | NotReady err \<Rightarrow> (Some err, a\<lparr>browser := True\<rparr>, w\<lparr>trace := trace w @ [Launched]\<rparr>)
         | Ready \<Rightarrow> (None, a\<lparr>browser := True\<rparr>, w\<lparr>trace := trace w @ [Launched]\<rparr>)))"

definition contactPhone :: "contact \<Rightarrow> string" where
  "contactPhone c = (case js_get c ''phone'' of None \<Rightarrow> ''undefined'' | Some v \<Rightarrow> js_string v)"

definition truthyText :: "string option \<Rightarrow> string option" where
  "truthyText x = (case x of None \<Rightarrow> None | Some s \<Rightarrow> if s = [] then None else Some s)"

text \<open>The \<^verbatim>\<open>catch\<close> block of the loop body.\<close>

definition contactFailed :: "contact \<Rightarrow> stats \<times> app \<times> world \<Rightarrow> stats \<times> app \<times> world" where
  "contactFailed c s =
     (case s of (st, a, w) \<Rightarrow>
        (st\<lparr>failed := failed st + 1\<rparr>, a,
         if whatsapp a \<and> \<not> dryRun a then takeScreenshot (''error_'' @ contactPhone c) w else w))"

definition renderCaption :: "env \<Rightarrow> config \<Rightarrow> contact \<Rightarrow> string + string option" where
  "renderCaption e cfg c =
     (case truthyText (image_caption cfg) of
        None \<Rightarrow> Inr None
      | Some cap \<Rightarrow>
          (case renderTemplate e cap c of Inl err \<Rightarrow> Inl err | Inr r \<Rightarrow> Inr (Some r)))"

definition transportSend ::
  "env \<Rightarrow> app \<Rightarrow> string \<Rightarrow> string \<Rightarrow> string option \<Rightarrow> string option \<Rightarrow> world \<Rightarrow> (string + unit) \<times> world"
where
  "transportSend e a phone message imagePath caption w =
     (if whatsapp a then sendMessage e phone message imagePath caption w
      else (Inl ''TypeError: whatsapp is null'', w))"

text \<open>The live branch of the loop body: pace, send with retries, mark.\<close>

definition deliver ::
  "env \<Rightarrow> config \<Rightarrow> contact \<Rightarrow> string \<Rightarrow> stats \<times> app \<times> world \<Rightarrow> stats \<times> app \<times> world"
where
  "deliver e cfg c message s =
     (case s of (st, a, w) \<Rightarrow>
        (case wait e (rateLimiter a) w of (rl, w1) \<Rightarrow>
           (let a1 = a\<lparr>rateLimiter := rl\<rparr> in
            case renderCaption e cfg c of
              Inl err \<Rightarrow> contactFailed c (st, a1, w1)
            | Inr caption \<Rightarrow>
                (case retryWithBackoff e
                        (transportSend e a1 (contactPhone c) message
                           (truthyText (image_path cfg)) caption)
                        (retry cfg) w1 of
                   (Inl err, w2) \<Rightarrow> contactFailed c (st, a1, w2)
                 | (Inr u, w2) \<Rightarrow>
                     (case markAsSent e (contactPhone c) message [(''contact'', JObj c)]
                             (stateTracker a1) w2 of
                        (Some err, t, w3) \<Rightarrow> contactFailed c (st, a1\<lparr>stateTracker := t\<rparr>, w3)
                      | (None, t, w3) \<Rightarrow>
                          (st\<lparr>sent := sent st + 1\<rparr>, a1\<lparr>stateTracker := t\<rparr>, w3))))))"

text \<open>
  The body of the \<^verbatim>\<open>for\<close> loop for one contact.  Reading the timestamp of a ledger
  entry that is \<^verbatim>\<open>null\<close> throws, into the \<^verbatim>\<open>catch\<close> block.
\<close>

definition processContact ::
  "env \<Rightarrow> config \<Rightarrow> string \<Rightarrow> contact \<Rightarrow> stats \<times> app \<times> world \<Rightarrow> stats \<times> app \<times> world"
where
  "processContact e cfg template c s =
     (case s of (st, a, w) \<Rightarrow>
        (case renderTemplate e template c of
           Inl err \<Rightarrow> contactFailed c s
         | Inr message \<Rightarrow>
             if wasMessageSent e (stateTracker a) (contactPhone c) message then
               (case getMessageInfo e (stateTracker a) (contactPhone c) message of
                  None \<Rightarrow> contactFailed c s
                | Some info \<Rightarrow> (st\<lparr>skipped := skipped st + 1\<rparr>, a, w))
             else if dryRun a then (st\<lparr>sent := sent st + 1\<rparr>, a, w)
             else deliver e cfg c message s))"

fun processAll ::
  "env \<Rightarrow> config \<Rightarrow> string \<Rightarrow> contact list \<Rightarrow> stats \<times> app \<times> world \<Rightarrow> stats \<times> app \<times> world"
where
  "processAll e cfg template [] s = s"
| "processAll e cfg template (c # cs) s =
     processAll e cfg template cs (processContact e cfg template c s)"

definition hasTemplate :: "config \<Rightarrow> bool" where
  "hasTemplate cfg =
     (case message_template cfg of None \<Rightarrow> False | Some path \<Rightarrow> path \<noteq> [] \<and> \<not> list_all is_space path)"

definition templatePath :: "config \<Rightarrow> string" where
  "templatePath cfg = orDefault (message_template cfg) []"

definition loadTemplate :: "env \<Rightarrow> string \<Rightarrow> string + string" where
  "loadTemplate e filePath =
     (case templateFile e of
        Inl err \<Rightarrow> Inl (''Failed to load template from '' @ filePath @ '': '' @ err)
      | Inr text \<Rightarrow> Inr text)"

definition initialStats :: "contact list \<Rightarrow> stats" where
  "initialStats valid = \<lparr>total = length valid, sent = 0, skipped = 0, failed = 0\<rparr>"

text \<open>
  \<^verbatim>\<open>run()\<close>.  It throws when the contacts or the template cannot be read or the browser
  does not start, returns without statistics when no contact is valid, and otherwise logs
  the statistics the loop ends with and those of the ledger; it returns the former here.
  The validation of the template only logs.
\<close>

definition run ::
  "env \<Rightarrow> config \<Rightarrow> app \<Rightarrow> world \<Rightarrow> stats option completion \<times> app \<times> world"
where
  "run e cfg a w =
     (case contactsCsv e of
        Inl err \<Rightarrow> (Threw (''Failed to parse CSV: '' @ err), a, w)
      | Inr contacts \<Rightarrow>
          (case validateContacts contacts of (valid, invalid) \<Rightarrow>
             if valid = [] then (Returned None, a, w)
             else
               (case (if hasTemplate cfg then loadTemplate e (templatePath cfg) else Inr []) of
                  Inl err \<Rightarrow> (Threw err, a, w)
                | Inr template \<Rightarrow>
                    (case (if \<not> dryRun a then launchBrowser e a w else (None, a, w)) of
                       (Some err, a1, w1) \<Rightarrow> (Threw err, a1, w1)
                     | (None, a1, w1) \<Rightarrow>
                         (case processAll e cfg template valid (initialStats valid, a1, w1) of
                            (st, a2, w2) \<Rightarrow>
                              (case getStats (stateTracker a2) of
                                 Inl err \<Rightarrow> (Threw err, a2, w2)
                               | Inr ledgerStats \<Rightarrow> (Returned (Some st), a2, w2)))))))"



section \<open>Concrete inputs\<close>

definition demoContacts :: "contact list" where
  "demoContacts =
     [[(''Phone Number'', JStr ''(555) 010-9999''), (''name'', JStr ''Ann'')],
      [(''name'', JStr ''Bob'')]]"

text \<open>
  A configuration, an environment and a starting world for concrete runs.  The digest is
  replaced by the identity (which, like SHA-256 on the inputs used, gives different digests
  for different texts), and the regular-expression engine by one in which every pattern
  compiles and none matches, which is how the real engine behaves on the template
  \<open>Hello\<close> and the field names used here.
\<close>

definition demoRetry :: retry_config where
  "demoRetry = \<lparr>max_attempts = Some 3, initial_delay_ms = Some 1000,
                 max_delay_ms = Some 10000, backoff_multiplier = Some 2\<rparr>"

definition demoConfig :: config where
  "demoConfig = \<lparr>message_template = Some ''template.txt'', image_path = None,
                  image_caption = None, retry = demoRetry, rate_limit = 1\<rparr>"

definition twoContacts :: "contact list" where
  "twoContacts = [[(''phone'', JStr ''+15550100'')], [(''phone'', JStr ''+15550101'')]]"

definition demoEnv :: env where
  "demoEnv = \<lparr>sha256 = (\<lambda>s. s),
               regexReplace = (\<lambda>src subject repl. Inr subject),
               toISOString = (\<lambda>t. ''2024-01-01T00:00:00.000Z''),
               sendFailure = (\<lambda>k. None),
               sendDuration = (\<lambda>k. 0),
               writeFailure = (\<lambda>k. None),
               overshoot = (\<lambda>n. 0),
               configFile = Inr demoConfig,
               contactsCsv = Inr twoContacts,
               templateFile = Inr ''Hello'',
               browserLaunch = Ready\<rparr>"

definition demoWorld :: world where
  "demoWorld = \<lparr>now = 1700000000000, disk = Missing, trace = [], sendCount = 0,
                 writeCount = 0\<rparr>"

text \<open>Exactly one of the three outcome counters went up by one, and nothing else changed.\<close>

definition countedOnce :: "stats \<Rightarrow> stats \<Rightarrow> bool" where
  "countedOnce st st' =
     (st' = st\<lparr>sent := sent st + 1\<rparr> \<or> st' = st\<lparr>skipped := skipped st + 1\<rparr>
      \<or> st' = st\<lparr>failed := failed st + 1\<rparr>)"


definition demoApp :: app where
  "demoApp = \<lparr>dryRun = False, stateTracker = newStateTracker, rateLimiter = newRateLimiter 1,
               whatsapp = True, browser = False\<rparr>"

text \<open>An environment in which the first three transport calls fail and the later ones deliver.\<close>

definition flakyEnv :: env where
  "flakyEnv = demoEnv\<lparr>sendFailure := (\<lambda>k. if k < 3 then Some ''timeout'' else None)\<rparr>"



definition recorded :: "jsobj \<Rightarrow> string \<Rightarrow> bool" where
  "recorded ledger hash = (case js_get ledger hash of Some (JObj entry) \<Rightarrow> True | _ \<Rightarrow> False)"





text \<open>A first run in which every transport call and every write succeeds.\<close>

definition firstRun :: "stats option completion \<times> app \<times> world" where
  "firstRun = run demoEnv demoConfig demoApp demoWorld"

text \<open>
  What one pass through the loop body keeps and establishes, for a contact with rendered
  message: the mode stays, an entry object stays under its key, and if \<open>sent\<close> went up
  the contact's own fingerprint holds an entry object and the state file holds the ledger.
\<close>

definition stepOk :: "env \<Rightarrow> contact \<Rightarrow> string \<Rightarrow> string \<Rightarrow> stats \<times> app \<times> world \<Rightarrow> stats \<times> app \<times> world \<Rightarrow> bool" where
  "stepOk e c message h s s' =
     (case s of (st, a, w) \<Rightarrow> case s' of (st', a', w') \<Rightarrow>
        dryRun a' = dryRun a
        \<and> (recorded (sentMessages (stateTracker a)) h \<longrightarrow> recorded (sentMessages (stateTracker a')) h)
        \<and> (sent st' = sent st + 1 \<longrightarrow>
              recorded (sentMessages (stateTracker a')) (generateHash e (contactPhone c) message)
              \<and> disk w' = Stored (stateTracker a')))"

section \<open>Verification\<close>

subsection \<open>Objects\<close>

lemma js_get_set_same: "js_get (js_set k v obj) k = Some v"
  by (induction obj) (auto simp: js_get_def)

lemma js_get_set_other: "k' \<noteq> k \<Longrightarrow> js_get (js_set k v obj) k' = js_get obj k'"
  by (induction obj) (auto simp: js_get_def)

lemma js_get_delete_other: "k' \<noteq> k \<Longrightarrow> js_get (js_delete k obj) k' = js_get obj k'"
  by (induction obj) (auto simp: js_get_def js_delete_def)

lemma phone_after_rename:
  "js_get c pf = Some v \<Longrightarrow> js_get (renamePhone pf v c) ''phone'' = Some v"
  by (auto simp: renamePhone_def js_get_delete_other js_get_set_same)

lemma cleanPhone_no_separator: "list_all (\<lambda>x. \<not> isSeparator x) (cleanPhone s)"
  by (simp add: cleanPhone_def list_all_iff)

lemma plusNoSeparators_normalised: "plusNoSeparators (normalisedPhone v)"
  using cleanPhone_no_separator [of "js_string v"]
  by (cases "cleanPhone (js_string v)")
     (auto simp: plusNoSeparators_def startsWithPlus_def normalisedPhone_def Let_def)

lemma validateContact_valid:
  assumes "validateContact i c = Inr c'"
  shows "js_get c' ''phone'' \<noteq> None \<and>
         (\<exists>p. js_get c' ''phone'' = Some (JStr p) \<and> plusNoSeparators p)"
proof -
  from assms obtain pf v where
    "c' = js_set ''phone'' (JStr (normalisedPhone v)) (renamePhone pf v c)"
    by (auto simp: validateContact_def Let_def split: option.splits if_splits)
  then have "js_get c' ''phone'' = Some (JStr (normalisedPhone v))"
    by (simp add: js_get_set_same)
  then show ?thesis
    using plusNoSeparators_normalised by simp
qed

lemma isPhoneKey_phone: "isPhoneKey ''phone''"
  by code_simp

lemma js_get_Some_key: "js_get c k = Some v \<Longrightarrow> k \<in> set (map fst c)"
  by (auto simp: js_get_def dest: map_of_SomeD intro: rev_image_eqI)

lemma phoneField_None_no_phone:
  assumes "phoneField c = None"
  shows "js_get c ''phone'' = None"
proof (rule ccontr)
  assume "js_get c ''phone'' \<noteq> None"
  then obtain v where "js_get c ''phone'' = Some v" by auto
  then have "''phone'' \<in> set (map fst c)" by (rule js_get_Some_key)
  with assms isPhoneKey_phone show False
    by (auto simp: phoneField_def find_None_iff)
qed

lemma validateContact_missing:
  "phoneField c = None \<Longrightarrow>
   validateContact i c = Inl \<lparr>index = i + 2, contact = c, reason = ''Missing phone number''\<rparr>"
  by (simp add: validateContact_def)

lemma validateFrom_valid:
  assumes "validateFrom i cs v0 inv0 = (valid, invalid)" and "c' \<in> set valid"
  shows "c' \<in> set v0 \<or> (\<exists>j c. validateContact j c = Inr c')"
  using assms
proof (induction cs arbitrary: i v0 inv0)
  case Nil
  then show ?case by simp
next
  case (Cons c cs)
  show ?case
  proof (cases "validateContact i c")
    case (Inl r)
    with Cons.prems have "validateFrom (Suc i) cs v0 (inv0 @ [r]) = (valid, invalid)" by simp
    from Cons.IH [OF this Cons.prems(2)] show ?thesis .
  next
    case (Inr c1)
    with Cons.prems have "validateFrom (Suc i) cs (v0 @ [c1]) inv0 = (valid, invalid)" by simp
    from Cons.IH [OF this Cons.prems(2)] Inr show ?thesis by auto
  qed
qed

lemma validateFrom_invalid_mono:
  assumes "validateFrom i cs v0 inv0 = (valid, invalid)"
  shows "set inv0 \<subseteq> set invalid"
  using assms
proof (induction cs arbitrary: i v0 inv0)
  case Nil
  then show ?case by simp
next
  case (Cons c cs)
  show ?case
  proof (cases "validateContact i c")
    case (Inl r)
    with Cons.prems have "validateFrom (Suc i) cs v0 (inv0 @ [r]) = (valid, invalid)" by simp
    from Cons.IH [OF this] show ?thesis by simp
  next
    case (Inr c1)
    with Cons.prems have "validateFrom (Suc i) cs (v0 @ [c1]) inv0 = (valid, invalid)" by simp
    from Cons.IH [OF this] show ?thesis .
  qed
qed

lemma validateFrom_invalid:
  assumes "validateFrom i cs v0 inv0 = (valid, invalid)" and "j < length cs"
    and "validateContact (i + j) (cs ! j) = Inl r"
  shows "r \<in> set invalid"
  using assms
proof (induction cs arbitrary: i j v0 inv0)
  case Nil
  then show ?case by simp
next
  case (Cons c cs)
  show ?case
  proof (cases j)
    case 0
    with Cons.prems have "validateFrom (Suc i) cs v0 (inv0 @ [r]) = (valid, invalid)" by simp
    from validateFrom_invalid_mono [OF this] show ?thesis by simp
  next
    case (Suc j')
    with Cons.prems have j': "j' < length cs" "validateContact (Suc i + j') (cs ! j') = Inl r"
      by simp_all
    show ?thesis
    proof (cases "validateContact i c")
      case (Inl r0)
      with Cons.prems have "validateFrom (Suc i) cs v0 (inv0 @ [r0]) = (valid, invalid)" by simp
      from Cons.IH [OF this j'] show ?thesis .
    next
      case (Inr c1)
      with Cons.prems have "validateFrom (Suc i) cs (v0 @ [c1]) inv0 = (valid, invalid)" by simp
      from Cons.IH [OF this j'] show ?thesis .
    qed
  qed
qed

subsection \<open>Validated contacts\<close>

text \<open>
  Claim C8, as the code has it.  Every contact that \<open>validateContacts\<close> puts in the valid
  list has a \<open>phone\<close> field holding a string that starts with a plus sign and contains no
  white space, dash or parenthesis after it (the characters need not be digits: nothing in
  the code checks for digits).  A contact with no key that normalises to \<open>phone\<close> or
  \<open>phonenumber\<close> is put in the invalid list, with its row number (position plus two) and
  the reason \<open>Missing phone number\<close>, and is not in the valid list.
\<close>

theorem validateContacts_normalises:
  assumes "validateContacts contacts = (valid, invalid)"
  shows "(\<forall>c \<in> set valid. \<exists>p. js_get c ''phone'' = Some (JStr p) \<and> plusNoSeparators p) \<and>
         (\<forall>i < length contacts. phoneField (contacts ! i) = None \<longrightarrow>
            \<lparr>index = i + 2, contact = contacts ! i, reason = ''Missing phone number''\<rparr> \<in> set invalid
            \<and> contacts ! i \<notin> set valid)"
proof (intro conjI ballI allI impI)
  fix c assume "c \<in> set valid"
  with assms validateFrom_valid [of 0 contacts "[]" "[]" valid invalid c]
  obtain j c0 where "validateContact j c0 = Inr c" by (auto simp: validateContacts_def)
  then show "\<exists>p. js_get c ''phone'' = Some (JStr p) \<and> plusNoSeparators p"
    using validateContact_valid by blast
next
  fix i assume i: "i < length contacts" and none: "phoneField (contacts ! i) = None"
  from validateContact_missing [OF none, of i]
  have "validateContact (0 + i) (contacts ! i) =
        Inl \<lparr>index = i + 2, contact = contacts ! i, reason = ''Missing phone number''\<rparr>" by simp
  with assms i validateFrom_invalid [of 0 contacts "[]" "[]" valid invalid i]
  show "\<lparr>index = i + 2, contact = contacts ! i, reason = ''Missing phone number''\<rparr> \<in> set invalid"
    by (simp add: validateContacts_def)
next
  fix i assume i: "i < length contacts" and none: "phoneField (contacts ! i) = None"
  show "contacts ! i \<notin> set valid"
  proof
    assume "contacts ! i \<in> set valid"
    with assms validateFrom_valid [of 0 contacts "[]" "[]" valid invalid "contacts ! i"]
    obtain j c0 where "validateContact j c0 = Inr (contacts ! i)"
      by (auto simp: validateContacts_def)
    then have "js_get (contacts ! i) ''phone'' \<noteq> None" using validateContact_valid by blast
    with phoneField_None_no_phone [OF none] show False by simp
  qed
qed


lemma demo_validate:
  "validateContacts demoContacts =
     ([[(''name'', JStr ''Ann''), (''phone'', JStr ''+5550109999'')]],
      [\<lparr>index = 3, contact = [(''name'', JStr ''Bob'')], reason = ''Missing phone number''\<rparr>])"
  by code_simp

text \<open>
  Claim C8 as stated fails: the phone \<open>1-800-FLOWERS\<close> is accepted and normalised to
  \<open>+1800FLOWERS\<close>, which is not a plus sign followed by digits only.
\<close>

theorem validateContacts_not_digits:
  "fst (validateContacts [[(''phone'', JStr ''1-800-FLOWERS'')]]) = [[(''phone'', JStr ''+1800FLOWERS'')]]
   \<and> \<not> internationalFormat ''+1800FLOWERS''"
  by code_simp
lemma demo_second_no_phone: "phoneField (demoContacts ! 1) = None"
  by code_simp

theorem validateContacts_normalises_witness:
  "validateContacts demoContacts =
     ([[(''name'', JStr ''Ann''), (''phone'', JStr ''+5550109999'')]],
      [\<lparr>index = 3, contact = [(''name'', JStr ''Bob'')], reason = ''Missing phone number''\<rparr>])
   \<and> phoneField (demoContacts ! 1) = None
   \<and> (\<exists>p. js_get [(''name'', JStr ''Ann''), (''phone'', JStr ''+5550109999'')] ''phone'' = Some (JStr p)
          \<and> plusNoSeparators p)
   \<and> demoContacts ! 1 \<notin> set [[(''name'', JStr ''Ann''), (''phone'', JStr ''+5550109999'')]]"
proof -
  have len: "1 < length demoContacts" by (simp add: demoContacts_def)
  note inst = validateContacts_normalises [OF demo_validate]
  from inst have a: "\<exists>p. js_get [(''name'', JStr ''Ann''), (''phone'', JStr ''+5550109999'')] ''phone'' = Some (JStr p)
          \<and> plusNoSeparators p" by simp
  from inst len demo_second_no_phone
  have b: "demoContacts ! 1 \<notin> set [[(''name'', JStr ''Ann''), (''phone'', JStr ''+5550109999'')]]"
    by blast
  from a b demo_second_no_phone demo_validate show ?thesis by blast
qed

subsection \<open>Fingerprints\<close>

lemma hashContent_inject_same_phone:
  "hashContent p m1 = hashContent p m2 \<Longrightarrow> m1 = m2"
  by (simp add: hashContent_def)

lemma hashContent_inject_no_colon:
  assumes "hashContent p1 m1 = hashContent p2 m2"
    and "CHR '':'' \<notin> set p1" and "CHR '':'' \<notin> set p2"
  shows "p1 = p2 \<and> m1 = m2"
  using assms
proof (induction p1 arbitrary: p2)
  case Nil
  then show ?case by (cases p2) (auto simp: hashContent_def)
next
  case (Cons a p1)
  show ?case
  proof (cases p2)
    case Nil
    with Cons.prems show ?thesis by (auto simp: hashContent_def)
  next
    case (Cons b p2')
    with Cons.prems have "hashContent p1 m1 = hashContent p2' m2" "a = b"
      "CHR '':'' \<notin> set p1" "CHR '':'' \<notin> set p2'"
      by (auto simp: hashContent_def)
    with Cons.IH [of p2'] Cons show ?thesis by simp
  qed
qed

lemma applyOp_read_only: "\<not> isMark op \<Longrightarrow> applyOp e op s = s"
  by (cases op; cases s) simp_all

lemma applyOps_read_only: "list_all (\<lambda>op. \<not> isMark op) ops \<Longrightarrow> applyOps e ops s = s"
  by (induction ops arbitrary: s) (simp_all add: applyOp_read_only)

text \<open>
  Claim C4, as the code has it.  The fingerprint is the digest of \<open>phone + ":" + message\<close>;
  \<open>wasMessageSent\<close> gives the same answer after any calls of \<open>wasMessageSent\<close> and
  \<open>getMessageInfo\<close> with no \<open>markAsSent\<close> among them; and two unequal pairs have
  different pre-hash texts when they share the phone or when neither phone contains a colon
  (the colon is not kept out of either field), so that their fingerprints differ unless the
  digest collides on these two texts.
\<close>

theorem fingerprint_deterministic:
  "generateHash e phone message = sha256 e (phone @ '':'' @ message) \<and>
   (list_all (\<lambda>op. \<not> isMark op) ops \<longrightarrow>
      wasMessageSent e (fst (applyOps e ops (t, w))) phone message
        = wasMessageSent e t phone message) \<and>
   ((p1 = p2 \<or> (CHR '':'' \<notin> set p1 \<and> CHR '':'' \<notin> set p2)) \<and> (p1, m1) \<noteq> (p2, m2) \<longrightarrow>
      hashContent p1 m1 \<noteq> hashContent p2 m2 \<and>
      (inj_on (sha256 e) {hashContent p1 m1, hashContent p2 m2} \<longrightarrow>
         generateHash e p1 m1 \<noteq> generateHash e p2 m2))"
proof (intro conjI impI)
  show "generateHash e phone message = sha256 e (phone @ '':'' @ message)"
    by (simp add: generateHash_def hashContent_def)
next
  assume "list_all (\<lambda>op. \<not> isMark op) ops"
  then show "wasMessageSent e (fst (applyOps e ops (t, w))) phone message
        = wasMessageSent e t phone message"
    by (simp add: applyOps_read_only)
next
  assume h: "(p1 = p2 \<or> (CHR '':'' \<notin> set p1 \<and> CHR '':'' \<notin> set p2)) \<and> (p1, m1) \<noteq> (p2, m2)"
  show differ: "hashContent p1 m1 \<noteq> hashContent p2 m2"
  proof
    assume eq: "hashContent p1 m1 = hashContent p2 m2"
    from h consider "p1 = p2" | "CHR '':'' \<notin> set p1" "CHR '':'' \<notin> set p2" by blast
    then have "p1 = p2 \<and> m1 = m2"
    proof cases
      case 1
      with eq hashContent_inject_same_phone show ?thesis by blast
    next
      case 2
      with eq hashContent_inject_no_colon show ?thesis by blast
    qed
    with h show False by simp
  qed
  assume "inj_on (sha256 e) {hashContent p1 m1, hashContent p2 m2}"
  with differ show "generateHash e p1 m1 \<noteq> generateHash e p2 m2"
    by (auto simp: generateHash_def inj_on_def)
qed

text \<open>
  Claim C4 as stated fails: the pairs \<open>(+1, 2:x)\<close> and \<open>(+1:2, x)\<close> differ and have the
  same pre-hash text, hence the same fingerprint; \<open>validateContacts\<close> accepts a phone with
  a colon.
\<close>

text \<open>
  Claim C4 as stated fails: the pairs \<open>(+1, 2:x)\<close> and \<open>(+1:2, x)\<close> differ and have the
  same pre-hash text, hence the same fingerprint; \<open>validateContacts\<close> accepts a phone with
  a colon.
\<close>

theorem hashContent_collision:
  "(''+1'', ''2:x'') \<noteq> (''+1:2'', ''x'') \<and>
   hashContent ''+1'' ''2:x'' = hashContent ''+1:2'' ''x'' \<and>
   generateHash demoEnv ''+1'' ''2:x'' = generateHash demoEnv ''+1:2'' ''x'' \<and>
   fst (validateContacts [[(''phone'', JStr ''1:2'')]]) = [[(''phone'', JStr ''+1:2'')]]"
proof -
  have "fst (validateContacts [[(''phone'', JStr ''1:2'')]]) = [[(''phone'', JStr ''+1:2'')]]"
    by code_simp
  then show ?thesis
    by (simp add: hashContent_def generateHash_def)
qed

theorem fingerprint_deterministic_witness:
  "list_all (\<lambda>op. \<not> isMark op) [WasMessageSent ''+1'' ''a'', GetMessageInfo ''+1'' ''a''] \<and>
   wasMessageSent demoEnv
     (fst (applyOps demoEnv [WasMessageSent ''+1'' ''a'', GetMessageInfo ''+1'' ''a'']
        (newStateTracker, demoWorld))) ''+1'' ''a''
     = wasMessageSent demoEnv newStateTracker ''+1'' ''a'' \<and>
   CHR '':'' \<notin> set ''+1'' \<and> CHR '':'' \<notin> set ''+2'' \<and> (''+1'', ''a'') \<noteq> (''+2'', ''a'') \<and>
   hashContent ''+1'' ''a'' \<noteq> hashContent ''+2'' ''a'' \<and>
   inj_on (sha256 demoEnv) {hashContent ''+1'' ''a'', hashContent ''+2'' ''a''} \<and>
   generateHash demoEnv ''+1'' ''a'' \<noteq> generateHash demoEnv ''+2'' ''a''"
proof -
  have ro: "list_all (\<lambda>op. \<not> isMark op) [WasMessageSent ''+1'' ''a'', GetMessageInfo ''+1'' ''a'']"
    by simp
  have nc: "CHR '':'' \<notin> set ''+1''" "CHR '':'' \<notin> set ''+2''" "(''+1'', ''a'') \<noteq> (''+2'', ''a'')"
    by simp_all
  have inj: "inj_on (sha256 demoEnv) {hashContent ''+1'' ''a'', hashContent ''+2'' ''a''}"
    by (simp add: demoEnv_def inj_on_def)
  from fingerprint_deterministic
    [of demoEnv "''+1''" "''a''" "[WasMessageSent ''+1'' ''a'', GetMessageInfo ''+1'' ''a'']"
        newStateTracker demoWorld "''+1''" "''+2''" "''a''" "''a''"]
    ro nc inj
  show ?thesis by blast
qed

subsection \<open>Ledger keys\<close>

lemma keys_js_set:
  "map fst (js_set k v obj) =
     (if k \<in> set (map fst obj) then map fst obj else map fst obj @ [k])"
proof (induction obj)
  case Nil
  show ?case by simp
next
  case (Cons p obj)
  obtain k' x where p: "p = (k', x)" by (cases p)
  show ?case
  proof (cases "k' = k")
    case True
    with p show ?thesis by simp
  next
    case False
    with p Cons.IH show ?thesis by simp
  qed
qed

lemma distinct_js_set: "distinct (map fst obj) \<Longrightarrow> distinct (map fst (js_set k v obj))"
  by (simp add: keys_js_set)

lemma keys_js_set_subset: "set (map fst obj) \<subseteq> set (map fst (js_set k v obj))"
  by (auto simp: keys_js_set)

lemma key_in_js_set: "k \<in> set (map fst (js_set k v obj))"
  by (simp add: keys_js_set)

lemma save_sentMessages: "sentMessages (fst (snd (save e t w))) = sentMessages t"
  by (simp add: save_def Let_def split: option.splits)

lemma markAsSent_sentMessages:
  "sentMessages (fst (snd (markAsSent e phone message metadata t w))) =
     js_set (generateHash e phone message)
       (ledgerEntry e phone (generateHash e phone message) (now w) metadata) (sentMessages t)"
  by (simp add: markAsSent_def Let_def save_sentMessages)

lemma applyOp_cases:
  "sentMessages (fst (applyOp e op (t, w))) = sentMessages t \<or>
   (\<exists>k v. sentMessages (fst (applyOp e op (t, w))) = js_set k v (sentMessages t))"
proof (cases op)
  case (MarkAsSent phone message metadata)
  obtain r t' w' where m: "markAsSent e phone message metadata t w = (r, t', w')"
    by (cases "markAsSent e phone message metadata t w") auto
  with markAsSent_sentMessages [of e phone message metadata t w] MarkAsSent
  show ?thesis by auto
qed simp_all

lemma applyOp_distinct:
  "distinct (map fst (sentMessages (fst s))) \<Longrightarrow>
   distinct (map fst (sentMessages (fst (applyOp e op s))))"
proof -
  assume d: "distinct (map fst (sentMessages (fst s)))"
  from applyOp_cases [of e op "fst s" "snd s"]
  consider "sentMessages (fst (applyOp e op s)) = sentMessages (fst s)"
    | k v where "sentMessages (fst (applyOp e op s)) = js_set k v (sentMessages (fst s))"
    by auto
  then show ?thesis
  proof cases
    case 1
    with d show ?thesis by simp
  next
    case 2
    with d distinct_js_set [of "sentMessages (fst s)" k v] show ?thesis by simp
  qed
qed

lemma applyOp_keys_mono:
  "set (map fst (sentMessages (fst s))) \<subseteq> set (map fst (sentMessages (fst (applyOp e op s))))"
proof -
  from applyOp_cases [of e op "fst s" "snd s"]
  consider "sentMessages (fst (applyOp e op s)) = sentMessages (fst s)"
    | k v where "sentMessages (fst (applyOp e op s)) = js_set k v (sentMessages (fst s))"
    by auto
  then show ?thesis
  proof cases
    case 1
    then show ?thesis by simp
  next
    case 2
    with keys_js_set_subset [of "sentMessages (fst s)" k v] show ?thesis by simp
  qed
qed

lemma applyOps_distinct:
  "distinct (map fst (sentMessages (fst s))) \<Longrightarrow>
   distinct (map fst (sentMessages (fst (applyOps e ops s))))"
  by (induction ops arbitrary: s) (simp_all add: applyOp_distinct)

lemma applyOps_keys_mono:
  "set (map fst (sentMessages (fst s))) \<subseteq> set (map fst (sentMessages (fst (applyOps e ops s))))"
proof (induction ops arbitrary: s)
  case Nil
  show ?case by simp
next
  case (Cons op ops)
  have "set (map fst (sentMessages (fst s)))
          \<subseteq> set (map fst (sentMessages (fst (applyOp e op s))))"
    by (rule applyOp_keys_mono)
  also have "\<dots> \<subseteq> set (map fst (sentMessages (fst (applyOps e ops (applyOp e op s)))))"
    by (rule Cons.IH)
  finally show ?case by simp
qed

lemma filter_key_count:
  "length (filter (\<lambda>p. fst p = h) xs) = count_list (map fst xs) h"
  by (induction xs) auto

lemma entriesFor_count:
  "entriesFor h t = count_list (map fst (sentMessages t)) h"
  by (simp add: entriesFor_def filter_key_count)

lemma count_list_distinct:
  "distinct xs \<Longrightarrow> count_list xs x = (if x \<in> set xs then 1 else 0)"
  by (induction xs) auto

lemma entriesFor_after_mark:
  assumes "distinct (map fst (sentMessages t))"
  shows "entriesFor (generateHash e phone message)
           (fst (snd (markAsSent e phone message metadata t w))) = 1"
proof -
  let ?t' = "fst (snd (markAsSent e phone message metadata t w))"
  let ?h = "generateHash e phone message"
  have keys: "sentMessages ?t' = js_set ?h (ledgerEntry e phone ?h (now w) metadata) (sentMessages t)"
    by (rule markAsSent_sentMessages)
  then have "distinct (map fst (sentMessages ?t'))" "?h \<in> set (map fst (sentMessages ?t'))"
    using assms distinct_js_set key_in_js_set by simp_all
  then show ?thesis
    by (simp add: entriesFor_count count_list_distinct del: set_map)
qed

lemma applyOp_mark:
  "fst (applyOp e (MarkAsSent phone message metadata) (t, w)) =
     fst (snd (markAsSent e phone message metadata t w))"
  by (cases "markAsSent e phone message metadata t w") simp

text \<open>
  Claim C5.  On a ledger whose keys are distinct, two calls of \<open>markAsSent\<close> with the
  same phone and message (whatever the metadata, and whether or not a write fails) leave
  exactly one entry under that fingerprint; after any sequence of \<open>wasMessageSent\<close>,
  \<open>getMessageInfo\<close> and \<open>markAsSent\<close> calls the keys are still distinct, every
  fingerprint occurs at most once, and every key that was there is still there.
\<close>

theorem markAsSent_idempotent:
  assumes "distinct (map fst (sentMessages t))"
  shows "entriesFor (generateHash e phone message)
           (fst (applyOps e [MarkAsSent phone message meta1, MarkAsSent phone message meta2] (t, w))) = 1
       \<and> distinct (map fst (sentMessages (fst (applyOps e ops (t, w)))))
       \<and> (\<forall>h. entriesFor h (fst (applyOps e ops (t, w))) \<le> 1)
       \<and> set (map fst (sentMessages t)) \<subseteq> set (map fst (sentMessages (fst (applyOps e ops (t, w)))))"
proof (intro conjI allI)
  obtain t1 w1 where s1: "applyOp e (MarkAsSent phone message meta1) (t, w) = (t1, w1)"
    by (cases "applyOp e (MarkAsSent phone message meta1) (t, w)")
  from applyOp_distinct [of "(t, w)" e "MarkAsSent phone message meta1"] assms s1
  have d1: "distinct (map fst (sentMessages t1))" by simp
  have "fst (applyOps e [MarkAsSent phone message meta1, MarkAsSent phone message meta2] (t, w))
        = fst (snd (markAsSent e phone message meta2 t1 w1))"
    using s1 applyOp_mark [of e phone message meta2 t1 w1] by simp
  with entriesFor_after_mark [OF d1, of e phone message meta2 w1]
  show "entriesFor (generateHash e phone message)
           (fst (applyOps e [MarkAsSent phone message meta1, MarkAsSent phone message meta2] (t, w))) = 1"
    by simp
next
  show d: "distinct (map fst (sentMessages (fst (applyOps e ops (t, w)))))"
    using applyOps_distinct [of "(t, w)" e ops] assms by simp
  fix h
  from d show "entriesFor h (fst (applyOps e ops (t, w))) \<le> 1"
    by (simp add: entriesFor_count count_list_distinct del: set_map)
next
  show "set (map fst (sentMessages t)) \<subseteq> set (map fst (sentMessages (fst (applyOps e ops (t, w)))))"
    using applyOps_keys_mono [of "(t, w)" e ops] by simp
qed

lemma demo_marks:
  "sentMessages (fst (applyOps demoEnv
      [MarkAsSent ''+15550100'' ''Hello'' [], WasMessageSent ''+15550100'' ''Hello'',
       MarkAsSent ''+15550100'' ''Hello'' [(''contact'', JNull)]] (newStateTracker, demoWorld)))
   = [(''+15550100:Hello'',
       JObj [(''phone'', JStr ''+15550100''), (''messageHash'', JStr ''+15550100:Hello''),
             (''timestamp'', JStr ''2024-01-01T00:00:00.000Z''), (''contact'', JNull)])]"
  by (simp add: demoEnv_def demoWorld_def newStateTracker_def markAsSent_def save_def
        generateHash_def hashContent_def ledgerEntry_def Let_def)

theorem markAsSent_idempotent_witness:
  "distinct (map fst (sentMessages newStateTracker)) \<and>
   entriesFor (generateHash demoEnv ''+15550100'' ''Hello'')
     (fst (applyOps demoEnv
        [MarkAsSent ''+15550100'' ''Hello'' [], MarkAsSent ''+15550100'' ''Hello'' [(''contact'', JNull)]]
        (newStateTracker, demoWorld))) = 1 \<and>
   entriesFor ''+15550100:Hello'' (fst (applyOps demoEnv
      [MarkAsSent ''+15550100'' ''Hello'' [], WasMessageSent ''+15550100'' ''Hello'',
       MarkAsSent ''+15550100'' ''Hello'' [(''contact'', JNull)]] (newStateTracker, demoWorld))) \<le> 1"
proof -
  have d: "distinct (map fst (sentMessages newStateTracker))"
    by (simp add: newStateTracker_def)
  from markAsSent_idempotent [OF d, of demoEnv "''+15550100''" "''Hello''" "[]"
      "[(''contact'', JNull)]" demoWorld
      "[MarkAsSent ''+15550100'' ''Hello'' [], WasMessageSent ''+15550100'' ''Hello'',
       MarkAsSent ''+15550100'' ''Hello'' [(''contact'', JNull)]]"] d
  show ?thesis by blast
qed

subsection \<open>Pacing\<close>

lemma wait_minDelay: "minDelayMs (fst (wait e rl w)) = minDelayMs rl"
  by (simp add: wait_def Let_def)

lemma wait_last_is_now: "lastMessageTime (fst (wait e rl w)) = now (snd (wait e rl w))"
  by (simp add: wait_def Let_def)

lemma wait_trace:
  "trace (snd (wait e rl w)) =
     (if now w - lastMessageTime rl < minDelayMs rl
      then trace w @ [Paced, Slept (minDelayMs rl - (now w - lastMessageTime rl))]
      else trace w @ [Paced])"
  by (simp add: wait_def delayNeeded_def sleep_def Let_def)

lemma wait_now_lower:
  assumes "\<forall>n. 0 \<le> overshoot e n"
  shows "now w \<le> now (snd (wait e rl w))"
    and "lastMessageTime rl + minDelayMs rl \<le> now (snd (wait e rl w))"
proof -
  have o: "0 \<le> overshoot e (Suc (length (trace w)))" using assms by blast
  show "now w \<le> now (snd (wait e rl w))"
    using o by (simp add: wait_def delayNeeded_def sleep_def Let_def)
  show "lastMessageTime rl + minDelayMs rl \<le> now (snd (wait e rl w))"
    using o by (simp add: wait_def delayNeeded_def sleep_def Let_def)
qed

lemma waits_after_wait:
  assumes "\<forall>n. 0 \<le> overshoot e n" and "\<forall>g \<in> set gaps. 0 \<le> g"
    and "lastMessageTime rl = now w" and "0 \<le> minDelayMs rl"
  shows "now w + real (length gaps) * minDelayMs rl \<le> now (snd (waits e gaps rl w))"
  using assms(2-)
proof (induction gaps arbitrary: rl w)
  case Nil
  then show ?case by simp
next
  case (Cons g gaps)
  let ?rl' = "fst (wait e rl (idle g w))" and ?w' = "snd (wait e rl (idle g w))"
  have step: "waits e (g # gaps) rl w = waits e gaps ?rl' ?w'"
    by (simp add: case_prod_beta)
  have last: "lastMessageTime ?rl' = now ?w'" by (rule wait_last_is_now)
  have m: "minDelayMs ?rl' = minDelayMs rl" by (rule wait_minDelay)
  from wait_now_lower(2) [OF assms(1), of rl "idle g w"] Cons.prems
  have lower: "now w + minDelayMs rl \<le> now ?w'" by simp
  from Cons.prems have "\<forall>g \<in> set gaps. 0 \<le> g" by simp
  from Cons.IH [OF this last] m Cons.prems
  have "now ?w' + real (length gaps) * minDelayMs rl \<le> now (snd (waits e gaps ?rl' ?w'))"
    by simp
  with lower step show ?case by (simp add: algebra_simps)
qed

lemma waits_elapsed:
  assumes "\<forall>n. 0 \<le> overshoot e n" and "\<forall>g \<in> set gaps. 0 \<le> g" and "0 \<le> minDelayMs rl"
  shows "now w + (real (length gaps) - 1) * minDelayMs rl \<le> now (snd (waits e gaps rl w))"
proof (cases gaps)
  case Nil
  with assms(3) show ?thesis by (simp add: algebra_simps)
next
  case (Cons g rest)
  let ?rl' = "fst (wait e rl (idle g w))" and ?w' = "snd (wait e rl (idle g w))"
  have step: "waits e gaps rl w = waits e rest ?rl' ?w'"
    using Cons by (simp add: case_prod_beta)
  have last: "lastMessageTime ?rl' = now ?w'" by (rule wait_last_is_now)
  have m: "minDelayMs ?rl' = minDelayMs rl" by (rule wait_minDelay)
  from assms(2) Cons have g: "0 \<le> g" and rest: "\<forall>g \<in> set rest. 0 \<le> g" by simp_all
  from wait_now_lower(1) [OF assms(1), of "idle g w" rl] g
  have lower: "now w \<le> now ?w'" by (simp add: idle_def)
  from waits_after_wait [OF assms(1) rest last] m assms(3)
  have "now ?w' + real (length rest) * minDelayMs rl \<le> now (snd (waits e rest ?rl' ?w'))"
    by simp
  with lower step Cons show ?thesis by (simp add: algebra_simps)
qed

text \<open>
  Claim C7.  For a gate made for a rate \<open>r > 0\<close> (minimum interval \<open>1000 / r\<close> ms):
  when less than the interval has passed since the recorded time, \<open>wait()\<close> sleeps for
  exactly the missing difference, and otherwise it does not sleep; either way it records the
  time at which it returns; and over \<open>N\<close> consecutive calls, whatever idle time lies
  before each, at least \<open>(N - 1) * (1000 / r)\<close> ms pass, given that a timer never fires
  early.
\<close>

theorem pacing_lower_bound:
  assumes "0 < r" and "minDelayMs rl = minDelayMs (newRateLimiter r)"
    and "\<forall>n. 0 \<le> overshoot e n" and "list_all (\<lambda>g. 0 \<le> g) gaps"
  shows "minDelayMs (newRateLimiter r) = 1000 / r
       \<and> trace (snd (wait e rl w)) =
           (if now w - lastMessageTime rl < 1000 / r
            then trace w @ [Paced, Slept (1000 / r - (now w - lastMessageTime rl))]
            else trace w @ [Paced])
       \<and> lastMessageTime (fst (wait e rl w)) = now (snd (wait e rl w))
       \<and> now (snd (waits e gaps rl w)) - now w \<ge> (real (length gaps) - 1) * (1000 / r)"
proof -
  have m: "minDelayMs rl = 1000 / r" using assms(2) by (simp add: newRateLimiter_def)
  with assms(1) have pos: "0 \<le> minDelayMs rl" by simp
  from assms(4) have "\<forall>g \<in> set gaps. 0 \<le> g" by (simp add: list_all_iff)
  from waits_elapsed [OF assms(3) this pos, of w] m
  have "now w + (real (length gaps) - 1) * (1000 / r) \<le> now (snd (waits e gaps rl w))" by simp
  then show ?thesis
    using m wait_trace [of e rl w] wait_last_is_now [of e rl w]
    by (simp add: newRateLimiter_def)
qed

lemma demo_waits:
  "now (snd (waits demoEnv [0, 100, 0] (newRateLimiter 2) demoWorld)) = 1700000001000"
  by (simp add: wait_def delayNeeded_def sleep_def idle_def newRateLimiter_def demoEnv_def
        demoWorld_def Let_def)

theorem pacing_lower_bound_witness:
  "(0::real) < 2 \<and> list_all (\<lambda>g. (0::real) \<le> g) [0, 100, 0]
   \<and> now (snd (waits demoEnv [0, 100, 0] (newRateLimiter 2) demoWorld)) = 1700000001000
   \<and> now (snd (waits demoEnv [0, 100, 0] (newRateLimiter 2) demoWorld)) - now demoWorld
        \<ge> (real (length [0::real, 100, 0]) - 1) * (1000 / 2)
   \<and> trace (snd (wait demoEnv (newRateLimiter 2) demoWorld)) = [Paced]
   \<and> trace (snd (wait demoEnv ((newRateLimiter 2)\<lparr>lastMessageTime := 1699999999900\<rparr>) demoWorld))
        = [Paced, Slept 400]"
proof -
  have o: "\<forall>n. 0 \<le> overshoot demoEnv n" by (simp add: demoEnv_def)
  have g: "list_all (\<lambda>g. (0::real) \<le> g) [0, 100, 0]" by simp
  have t: "trace demoWorld = []" "now demoWorld = 1700000000000"
    "lastMessageTime (newRateLimiter 2) = 0"
    by (simp_all add: demoWorld_def newRateLimiter_def)
  have m: "minDelayMs ((newRateLimiter 2)\<lparr>lastMessageTime := 1699999999900\<rparr>)
             = minDelayMs (newRateLimiter 2)"
    by simp
  from pacing_lower_bound [of 2 "newRateLimiter 2" demoEnv "[0, 100, 0]" demoWorld, OF _ refl o g]
  have first: "now (snd (waits demoEnv [0, 100, 0] (newRateLimiter 2) demoWorld)) - now demoWorld
        \<ge> (real (length [0::real, 100, 0]) - 1) * (1000 / 2)
     \<and> trace (snd (wait demoEnv (newRateLimiter 2) demoWorld)) = [Paced]"
    using t by simp
  from pacing_lower_bound [of 2 "(newRateLimiter 2)\<lparr>lastMessageTime := 1699999999900\<rparr>" demoEnv
      "[0, 100, 0]" demoWorld, OF _ m o g]
  have second: "trace (snd (wait demoEnv ((newRateLimiter 2)\<lparr>lastMessageTime := 1699999999900\<rparr>)
      demoWorld)) = [Paced, Slept 400]"
    using t by simp
  from first second demo_waits g show ?thesis by simp
qed

subsection \<open>Retry\<close>

lemma invocations_sleep: "invocations (sleep e d w) = invocations w"
  by (simp add: invocations_def sleep_def)

lemma trace_sleep: "trace (sleep e d w) = trace w @ [Slept d]"
  by (simp add: sleep_def)

lemma probe_fst: "fst (probe outcomes w) = outcomes (invocations w + 1)"
  by (simp add: probe_def Let_def)

lemma probe_trace: "trace (snd (probe outcomes w)) = trace w @ [Invoked (invocations w + 1)]"
  by (simp add: probe_def Let_def)

lemma probe_invocations: "invocations (snd (probe outcomes w)) = invocations w + 1"
  by (simp add: probe_def Let_def invocations_def)

lemma retryLoop_done:
  "\<not> attempt \<le> maxA \<Longrightarrow>
   retryLoop e fn maxA maxD mult attempt delay (Some err) w = (Inl (exhaustedMessage maxA err), w)"
  by (subst retryLoop.simps) simp

lemma retryLoop_success_now:
  "attempt \<le> maxA \<Longrightarrow> fst (fn w) = Inr res \<Longrightarrow>
   retryLoop e fn maxA maxD mult attempt delay lastError w = (Inr res, snd (fn w))"
  by (subst retryLoop.simps) (simp add: case_prod_beta)

lemma retryLoop_retry:
  "attempt < maxA \<Longrightarrow> fst (fn w) = Inl err \<Longrightarrow>
   retryLoop e fn maxA maxD mult attempt delay lastError w =
     retryLoop e fn maxA maxD mult (attempt + 1) (min (delay * mult) maxD) (Some err)
       (sleep e delay (snd (fn w)))"
  by (subst retryLoop.simps) (simp add: case_prod_beta)

lemma retryLoop_last:
  "attempt = maxA \<Longrightarrow> fst (fn w) = Inl err \<Longrightarrow>
   retryLoop e fn maxA maxD mult attempt delay lastError w =
     (Inl (exhaustedMessage maxA err), snd (fn w))"
  by (subst retryLoop.simps) (simp add: case_prod_beta retryLoop_done)

lemma retryLoop_all_fail:
  assumes "attempt + int n = maxA"
    and "\<forall>j. 1 \<le> j \<and> j \<le> Suc n \<longrightarrow> outcomes (invocations w + j) = Inl (errs (invocations w + j))"
  shows "fst (retryLoop e (probe outcomes) maxA maxD mult attempt delay lastError w)
           = Inl (exhaustedMessage maxA (errs (invocations w + Suc n)))
       \<and> trace (snd (retryLoop e (probe outcomes) maxA maxD mult attempt delay lastError w))
           = trace w @ schedule (invocations w + 1) (Suc n) delay mult maxD"
  using assms
proof (induction n arbitrary: attempt delay lastError w)
  case 0
  from 0(2) [rule_format, of 1]
  have f: "fst (probe outcomes w) = Inl (errs (invocations w + 1))"
    by (simp add: probe_fst)
  from 0 have "attempt = maxA" by simp
  from retryLoop_last [where fn = "probe outcomes" and w = w, OF this f] show ?case
    by (simp add: probe_trace)
next
  case (Suc n)
  from Suc.prems(2) [rule_format, of 1]
  have f: "fst (probe outcomes w) = Inl (errs (invocations w + 1))"
    by (simp add: probe_fst)
  let ?w1 = "sleep e delay (snd (probe outcomes w))"
  have inv: "invocations ?w1 = invocations w + 1"
    by (simp add: invocations_sleep probe_invocations)
  have tr: "trace ?w1 = trace w @ [Invoked (invocations w + 1), Slept delay]"
    by (simp add: trace_sleep probe_trace)
  from Suc.prems have lt: "attempt < maxA" and nxt: "attempt + 1 + int n = maxA" by simp_all
  have rest: "\<forall>j. 1 \<le> j \<and> j \<le> Suc n \<longrightarrow>
      outcomes (invocations ?w1 + j) = Inl (errs (invocations ?w1 + j))"
  proof (intro allI impI)
    fix j assume "1 \<le> j \<and> j \<le> Suc n"
    then have "1 \<le> Suc j \<and> Suc j \<le> Suc (Suc n)" by simp
    from Suc.prems(2) [rule_format, OF this]
    have "outcomes (invocations w + Suc j) = Inl (errs (invocations w + Suc j))" .
    then show "outcomes (invocations ?w1 + j) = Inl (errs (invocations ?w1 + j))"
      by (simp add: inv)
  qed
  from Suc.IH [OF nxt rest, of "min (delay * mult) maxD" "Some (errs (invocations w + 1))"]
  show ?case
    by (simp add: retryLoop_retry [where fn = "probe outcomes" and w = w, OF lt f] inv tr)
qed

lemma retryLoop_first_success:
  assumes "attempt + int i \<le> maxA"
    and "\<forall>j. 1 \<le> j \<and> j \<le> i \<longrightarrow> isl (outcomes (invocations w + j))"
    and "outcomes (invocations w + Suc i) = Inr res"
  shows "fst (retryLoop e (probe outcomes) maxA maxD mult attempt delay lastError w) = Inr res
       \<and> trace (snd (retryLoop e (probe outcomes) maxA maxD mult attempt delay lastError w))
           = trace w @ schedule (invocations w + 1) (Suc i) delay mult maxD"
  using assms
proof (induction i arbitrary: attempt delay lastError w)
  case 0
  then have f: "fst (probe outcomes w) = Inr res" by (simp add: probe_fst)
  from 0 have "attempt \<le> maxA" by simp
  from retryLoop_success_now [where fn = "probe outcomes" and w = w, OF this f]
  show ?case by (simp add: probe_trace)
next
  case (Suc i)
  from Suc.prems(2) [rule_format, of 1] have "isl (outcomes (invocations w + 1))" by simp
  then obtain err where f: "fst (probe outcomes w) = Inl err"
    by (auto simp: probe_fst isl_def)
  let ?w1 = "sleep e delay (snd (probe outcomes w))"
  have inv: "invocations ?w1 = invocations w + 1"
    by (simp add: invocations_sleep probe_invocations)
  have tr: "trace ?w1 = trace w @ [Invoked (invocations w + 1), Slept delay]"
    by (simp add: trace_sleep probe_trace)
  from Suc.prems have lt: "attempt < maxA" and nxt: "attempt + 1 + int i \<le> maxA" by simp_all
  have rest: "\<forall>j. 1 \<le> j \<and> j \<le> i \<longrightarrow> isl (outcomes (invocations ?w1 + j))"
  proof (intro allI impI)
    fix j assume "1 \<le> j \<and> j \<le> i"
    then have "1 \<le> Suc j \<and> Suc j \<le> Suc i" by simp
    from Suc.prems(2) [rule_format, OF this] have "isl (outcomes (invocations w + Suc j))" .
    then show "isl (outcomes (invocations ?w1 + j))" by (simp add: inv)
  qed
  from Suc.prems(3) have last: "outcomes (invocations ?w1 + Suc i) = Inr res" by (simp add: inv)
  from Suc.IH [OF nxt rest last, of "min (delay * mult) maxD" "Some err"]
  show ?case
    by (simp add: retryLoop_retry [where fn = "probe outcomes" and w = w, OF lt f] inv tr)
qed

lemma invocations_schedule:
  "length (filter (\<lambda>ev. case ev of Invoked _ \<Rightarrow> True | _ \<Rightarrow> False) (schedule k n d mult maxD)) = n"
  by (induction k n d mult maxD rule: schedule.induct) simp_all

lemma invocations_append:
  "trace w' = trace w @ schedule k n d mult maxD \<Longrightarrow> invocations w' = invocations w + n"
  by (simp add: invocations_def invocations_schedule)

lemma showInt_3: "showInt 3 = ''3''"
  by code_simp

lemma showInt_1: "showInt 1 = ''1''"
  by code_simp

lemma retryWithBackoff_unfold:
  "retryWithBackoff e fn cfg w =
     retryLoop e fn (orDefault (max_attempts cfg) 3) (orDefault (max_delay_ms cfg) 10000)
       (orDefault (backoff_multiplier cfg) 2) 1 (orDefault (initial_delay_ms cfg) 1000) None w"
  by (simp add: retryWithBackoff_def)

lemma retry_exhausted:
  assumes "1 \<le> n" and "n = orDefault (max_attempts cfg) 3"
    and "d = orDefault (initial_delay_ms cfg) 1000" and "mx = orDefault (max_delay_ms cfg) 10000"
    and "mu = orDefault (backoff_multiplier cfg) 2"
    and "\<forall>j. 1 \<le> j \<and> j \<le> nat n \<longrightarrow> outcomes (invocations w + j) = Inl (errs (invocations w + j))"
  shows "fst (retryWithBackoff e (probe outcomes) cfg w)
           = Inl (exhaustedMessage n (errs (invocations w + nat n)))
       \<and> trace (snd (retryWithBackoff e (probe outcomes) cfg w))
           = trace w @ schedule (invocations w + 1) (nat n) d mu mx"
proof -
  obtain m where m: "nat n = Suc m" using assms(1) by (cases "nat n") auto
  with assms(1) have a: "1 + int m = n" by linarith
  from assms(6) m
  have b: "\<forall>j. 1 \<le> j \<and> j \<le> Suc m \<longrightarrow> outcomes (invocations w + j) = Inl (errs (invocations w + j))"
    by simp
  from retryLoop_all_fail [OF a b, of e mx mu d None] m assms(2-5)
  show ?thesis by (simp add: retryWithBackoff_unfold)
qed

lemma retry_succeeds:
  assumes "n = orDefault (max_attempts cfg) 3"
    and "d = orDefault (initial_delay_ms cfg) 1000" and "mx = orDefault (max_delay_ms cfg) 10000"
    and "mu = orDefault (backoff_multiplier cfg) 2"
    and "i < nat n"
    and "\<forall>j. 1 \<le> j \<and> j \<le> i \<longrightarrow> isl (outcomes (invocations w + j))"
    and "outcomes (invocations w + Suc i) = Inr res"
  shows "fst (retryWithBackoff e (probe outcomes) cfg w) = Inr res
       \<and> trace (snd (retryWithBackoff e (probe outcomes) cfg w))
           = trace w @ schedule (invocations w + 1) (Suc i) d mu mx"
proof -
  from assms(5) have a: "1 + int i \<le> n" by linarith
  from retryLoop_first_success [OF a assms(6,7), of e mx mu d None] assms(1-4)
  show ?thesis by (simp add: retryWithBackoff_unfold)
qed

lemma retry_bounded:
  assumes "1 \<le> n" and "n = orDefault (max_attempts cfg) 3"
  shows "invocations (snd (retryWithBackoff e (probe outcomes) cfg w)) \<le> invocations w + nat n"
proof (cases "\<exists>i. i < nat n \<and> \<not> isl (outcomes (invocations w + Suc i))")
  case True
  then obtain i where i: "i < nat n \<and> \<not> isl (outcomes (invocations w + Suc i))"
    and least: "\<forall>m<i. \<not> (m < nat n \<and> \<not> isl (outcomes (invocations w + Suc m)))"
    using exists_least_iff [of "\<lambda>i. i < nat n \<and> \<not> isl (outcomes (invocations w + Suc i))"]
    by blast
  from i obtain res where res: "outcomes (invocations w + Suc i) = Inr res"
    by (cases "outcomes (invocations w + Suc i)") auto
  have before: "\<forall>j. 1 \<le> j \<and> j \<le> i \<longrightarrow> isl (outcomes (invocations w + j))"
  proof (intro allI impI)
    fix j assume j: "1 \<le> j \<and> j \<le> i"
    then obtain m where m: "j = Suc m" by (cases j) auto
    with j i have "m < i" "m < nat n" by simp_all
    with least have "isl (outcomes (invocations w + Suc m))" by blast
    with m show "isl (outcomes (invocations w + j))" by simp
  qed
  from retry_succeeds [OF assms(2) refl refl refl _ before res, of e] i
  have "trace (snd (retryWithBackoff e (probe outcomes) cfg w))
     = trace w @ schedule (invocations w + 1) (Suc i) (orDefault (initial_delay_ms cfg) 1000)
         (orDefault (backoff_multiplier cfg) 2) (orDefault (max_delay_ms cfg) 10000)"
    by simp
  from invocations_append [OF this] i show ?thesis by simp
next
  case False
  then have "\<forall>j. 1 \<le> j \<and> j \<le> nat n \<longrightarrow>
      outcomes (invocations w + j) = Inl (projl (outcomes (invocations w + j)))"
  proof (intro allI impI)
    fix j assume j: "1 \<le> j \<and> j \<le> nat n"
    then obtain m where m: "j = Suc m" by (cases j) auto
    with j False have "isl (outcomes (invocations w + Suc m))" by auto
    with m show "outcomes (invocations w + j) = Inl (projl (outcomes (invocations w + j)))"
      by simp
  qed
  from retry_exhausted [OF assms refl refl refl, of outcomes w "\<lambda>k. projl (outcomes k)" e]
    this
  have "trace (snd (retryWithBackoff e (probe outcomes) cfg w))
     = trace w @ schedule (invocations w + 1) (nat n) (orDefault (initial_delay_ms cfg) 1000)
         (orDefault (backoff_multiplier cfg) 2) (orDefault (max_delay_ms cfg) 10000)"
    by simp
  from invocations_append [OF this] show ?thesis by simp
qed

text \<open>
  Claim C2.  With \<open>max_attempts = n \<ge> 1\<close>, \<open>retryWithBackoff\<close> invokes the operation at
  most \<open>n\<close> times.  If the first attempt that succeeds is attempt \<open>i + 1 \<le> n\<close>, its
  result is returned and the effects are exactly attempts \<open>1 \<dots> i + 1\<close> with a sleep
  after each failed one; if all \<open>n\<close> attempts fail, the effects are the \<open>n\<close> attempts
  with a sleep between two of them and none after the last, and the error raised names
  \<open>n\<close> and carries the message of the last error.  The sleeps start at
  \<open>initial_delay_ms\<close> and each next one is \<open>min (delay * backoff_multiplier)
  max_delay_ms\<close>.  With 3 attempts, 1000 ms, multiplier 2 and 10000 ms, an operation that
  always fails is tried three times with sleeps of 1000 and 2000 ms; with one attempt there
  is no sleep.
\<close>

theorem retryWithBackoff_contract:
  assumes "1 \<le> n" and "n = orDefault (max_attempts cfg) 3"
    and "d = orDefault (initial_delay_ms cfg) 1000" and "mx = orDefault (max_delay_ms cfg) 10000"
    and "mu = orDefault (backoff_multiplier cfg) 2"
    and "k = invocations w" and "r = retryWithBackoff e (probe outcomes) cfg w"
  shows "invocations (snd r) \<le> k + nat n
    \<and> (\<forall>i res. i < nat n \<and> (\<forall>j. 1 \<le> j \<and> j \<le> i \<longrightarrow> isl (outcomes (k + j)))
           \<and> outcomes (k + Suc i) = Inr res \<longrightarrow>
         fst r = Inr res \<and> trace (snd r) = trace w @ schedule (k + 1) (Suc i) d mu mx)
    \<and> ((\<forall>j. 1 \<le> j \<and> j \<le> nat n \<longrightarrow> outcomes (k + j) = Inl (errs (k + j))) \<longrightarrow>
         fst r = Inl (exhaustedMessage n (errs (k + nat n)))
         \<and> trace (snd r) = trace w @ schedule (k + 1) (nat n) d mu mx)
    \<and> ((\<forall>j. 1 \<le> j \<and> j \<le> nat n \<longrightarrow> outcomes (k + j) = Inl (errs (k + j)))
         \<and> n = 3 \<and> d = 1000 \<and> mu = 2 \<and> mx = 10000 \<longrightarrow>
         fst r = Inl (''Operation failed after 3 attempts. Last error: '' @ errs (k + 3))
         \<and> trace (snd r) =
             trace w @ [Invoked (k + 1), Slept 1000, Invoked (k + 2), Slept 2000, Invoked (k + 3)])
    \<and> (outcomes (k + 1) = Inl (errs (k + 1)) \<and> n = 1 \<longrightarrow>
         fst r = Inl (''Operation failed after 1 attempts. Last error: '' @ errs (k + 1))
         \<and> trace (snd r) = trace w @ [Invoked (k + 1)])"
proof (intro conjI allI impI)
  show "invocations (snd r) \<le> k + nat n"
    using retry_bounded [OF assms(1,2), of e outcomes w] assms(6,7) by simp
next
  fix i res
  assume "i < nat n \<and> (\<forall>j. 1 \<le> j \<and> j \<le> i \<longrightarrow> isl (outcomes (k + j)))
           \<and> outcomes (k + Suc i) = Inr res"
  with retry_succeeds [OF assms(2-5), of i outcomes w res e] assms(6,7)
  show "fst r = Inr res" "trace (snd r) = trace w @ schedule (k + 1) (Suc i) d mu mx"
    by simp_all
next
  assume "\<forall>j. 1 \<le> j \<and> j \<le> nat n \<longrightarrow> outcomes (k + j) = Inl (errs (k + j))"
  with retry_exhausted [OF assms(1-5), of outcomes w errs e] assms(6,7)
  show "fst r = Inl (exhaustedMessage n (errs (k + nat n)))"
    "trace (snd r) = trace w @ schedule (k + 1) (nat n) d mu mx"
    by simp_all
next
  assume a: "(\<forall>j. 1 \<le> j \<and> j \<le> nat n \<longrightarrow> outcomes (k + j) = Inl (errs (k + j)))
         \<and> n = 3 \<and> d = 1000 \<and> mu = 2 \<and> mx = 10000"
  then have n3: "nat n = Suc (Suc (Suc 0))" by simp
  from a retry_exhausted [OF assms(1-5), of outcomes w errs e] assms(6,7)
  have "fst r = Inl (exhaustedMessage n (errs (k + nat n)))"
    "trace (snd r) = trace w @ schedule (k + 1) (nat n) d mu mx"
    by simp_all
  with a n3
  show "fst r = Inl (''Operation failed after 3 attempts. Last error: '' @ errs (k + 3))"
    "trace (snd r) =
       trace w @ [Invoked (k + 1), Slept 1000, Invoked (k + 2), Slept 2000, Invoked (k + 3)]"
    by (simp_all add: exhaustedMessage_def showInt_3 numeral_3_eq_3)
next
  assume a: "outcomes (k + 1) = Inl (errs (k + 1)) \<and> n = 1"
  then have all: "\<forall>j. 1 \<le> j \<and> j \<le> nat n \<longrightarrow> outcomes (k + j) = Inl (errs (k + j))"
    by (auto simp: le_antisym)
  from retry_exhausted [OF assms(1-5), of outcomes w errs e] all assms(6,7)
  have "fst r = Inl (exhaustedMessage n (errs (k + nat n)))"
    "trace (snd r) = trace w @ schedule (k + 1) (nat n) d mu mx"
    by simp_all
  with a
  show "fst r = Inl (''Operation failed after 1 attempts. Last error: '' @ errs (k + 1))"
    "trace (snd r) = trace w @ [Invoked (k + 1)]"
    by (simp_all add: exhaustedMessage_def showInt_1)
qed

theorem retryWithBackoff_contract_witness:
  "(1::int) \<le> 3 \<and> orDefault (max_attempts demoRetry) 3 = 3 \<and> invocations demoWorld = 0
   \<and> fst (retryWithBackoff demoEnv (probe (\<lambda>k. Inl ''boom'' :: string + unit)) demoRetry demoWorld)
        = Inl ''Operation failed after 3 attempts. Last error: boom''
   \<and> trace (snd (retryWithBackoff demoEnv (probe (\<lambda>k. Inl ''boom'' :: string + unit)) demoRetry demoWorld))
        = [Invoked 1, Slept 1000, Invoked 2, Slept 2000, Invoked 3]
   \<and> fst (retryWithBackoff demoEnv (probe (\<lambda>k. if k = 2 then Inr () else Inl ''boom''))
          demoRetry demoWorld) = Inr ()
   \<and> trace (snd (retryWithBackoff demoEnv (probe (\<lambda>k. if k = 2 then Inr () else Inl ''boom''))
          demoRetry demoWorld)) = [Invoked 1, Slept 1000, Invoked 2]
   \<and> fst (retryWithBackoff demoEnv (probe (\<lambda>k. Inl ''boom'' :: string + unit))
          (demoRetry\<lparr>max_attempts := Some 1\<rparr>) demoWorld)
        = Inl ''Operation failed after 1 attempts. Last error: boom''
   \<and> trace (snd (retryWithBackoff demoEnv (probe (\<lambda>k. Inl ''boom'' :: string + unit))
          (demoRetry\<lparr>max_attempts := Some 1\<rparr>) demoWorld)) = [Invoked 1]"
proof -
  have k: "invocations demoWorld = 0" "trace demoWorld = []"
    by (simp_all add: invocations_def demoWorld_def)
  have c: "orDefault (max_attempts demoRetry) 3 = 3"
    "orDefault (initial_delay_ms demoRetry) 1000 = 1000"
    "orDefault (max_delay_ms demoRetry) 10000 = 10000"
    "orDefault (backoff_multiplier demoRetry) 2 = 2"
    by (simp_all add: demoRetry_def orDefault_def)
  have c1: "orDefault (max_attempts (demoRetry\<lparr>max_attempts := Some 1\<rparr>)) 3 = 1"
    "orDefault (initial_delay_ms (demoRetry\<lparr>max_attempts := Some 1\<rparr>)) 1000 = 1000"
    "orDefault (max_delay_ms (demoRetry\<lparr>max_attempts := Some 1\<rparr>)) 10000 = 10000"
    "orDefault (backoff_multiplier (demoRetry\<lparr>max_attempts := Some 1\<rparr>)) 2 = 2"
    by (simp_all add: demoRetry_def orDefault_def)
  have fails:
    "fst (retryWithBackoff demoEnv (probe (\<lambda>k. Inl ''boom'' :: string + unit)) demoRetry demoWorld)
        = Inl ''Operation failed after 3 attempts. Last error: boom''
     \<and> trace (snd (retryWithBackoff demoEnv (probe (\<lambda>k. Inl ''boom'' :: string + unit)) demoRetry demoWorld))
        = [Invoked 1, Slept 1000, Invoked 2, Slept 2000, Invoked 3]"
  proof -
    let ?out = "\<lambda>k::nat. (Inl ''boom'' :: string + unit)"
    have pre: "(\<forall>j. 1 \<le> j \<and> j \<le> nat 3 \<longrightarrow> ?out (0 + j) = Inl ((\<lambda>k. ''boom'') (0 + j)))
         \<and> (3::int) = 3 \<and> (1000::real) = 1000 \<and> (2::real) = 2 \<and> (10000::real) = 10000"
      by simp
    note inst = retryWithBackoff_contract [of 3 demoRetry 1000 10000 2 0 demoWorld
        "retryWithBackoff demoEnv (probe ?out) demoRetry demoWorld" demoEnv ?out "\<lambda>k. ''boom''",
        OF _ c(1) [symmetric] c(2) [symmetric] c(3) [symmetric] c(4) [symmetric] k(1) [symmetric] refl,
        THEN conjunct2, THEN conjunct2, THEN conjunct2, THEN conjunct1, rule_format, OF _ pre]
    from inst k show ?thesis by simp
  qed
  have succeeds:
    "fst (retryWithBackoff demoEnv (probe (\<lambda>k. if k = 2 then Inr () else Inl ''boom''))
          demoRetry demoWorld) = Inr ()
     \<and> trace (snd (retryWithBackoff demoEnv (probe (\<lambda>k. if k = 2 then Inr () else Inl ''boom''))
          demoRetry demoWorld)) = [Invoked 1, Slept 1000, Invoked 2]"
  proof -
    let ?out = "\<lambda>k::nat. if k = 2 then Inr () else (Inl ''boom'' :: string + unit)"
    have pre: "Suc 0 < nat 3 \<and> (\<forall>j. 1 \<le> j \<and> j \<le> Suc 0 \<longrightarrow> isl (?out (0 + j)))
           \<and> ?out (0 + Suc (Suc 0)) = Inr ()"
      by auto
    note inst = retryWithBackoff_contract [of 3 demoRetry 1000 10000 2 0 demoWorld
        "retryWithBackoff demoEnv (probe ?out) demoRetry demoWorld" demoEnv ?out "\<lambda>k. ''boom''",
        OF _ c(1) [symmetric] c(2) [symmetric] c(3) [symmetric] c(4) [symmetric] k(1) [symmetric] refl,
        THEN conjunct2, THEN conjunct1, rule_format, OF _ pre]
    from inst k show ?thesis by simp
  qed
  have once:
    "fst (retryWithBackoff demoEnv (probe (\<lambda>k. Inl ''boom'' :: string + unit))
          (demoRetry\<lparr>max_attempts := Some 1\<rparr>) demoWorld)
        = Inl ''Operation failed after 1 attempts. Last error: boom''
     \<and> trace (snd (retryWithBackoff demoEnv (probe (\<lambda>k. Inl ''boom'' :: string + unit))
          (demoRetry\<lparr>max_attempts := Some 1\<rparr>) demoWorld)) = [Invoked 1]"
  proof -
    let ?out = "\<lambda>k::nat. (Inl ''boom'' :: string + unit)"
    have pre: "?out (0 + 1) = Inl ((\<lambda>k. ''boom'') (0 + 1)) \<and> (1::int) = 1"
      by simp
    note inst = retryWithBackoff_contract [of 1 "demoRetry\<lparr>max_attempts := Some 1\<rparr>" 1000 10000 2 0
        demoWorld
        "retryWithBackoff demoEnv (probe ?out) (demoRetry\<lparr>max_attempts := Some 1\<rparr>) demoWorld"
        demoEnv ?out "\<lambda>k. ''boom''",
        OF _ c1(1) [symmetric] c1(2) [symmetric] c1(3) [symmetric] c1(4) [symmetric] k(1) [symmetric] refl,
        THEN conjunct2, THEN conjunct2, THEN conjunct2, THEN conjunct2, rule_format, OF _ pre]
    from inst k show ?thesis by simp
  qed
  from fails succeeds once k c show ?thesis by simp
qed

subsection \<open>One contact\<close>

lemma contactFailed_stats: "fst (contactFailed c (st, a, w)) = st\<lparr>failed := failed st + 1\<rparr>"
  by (simp add: contactFailed_def)

lemma contactFailed_app: "fst (snd (contactFailed c (st, a, w))) = a"
  by (simp add: contactFailed_def)

lemma countedOnce_failed: "countedOnce st (fst (contactFailed c (st, a, w)))"
  by (simp add: countedOnce_def contactFailed_stats)

lemma deliver_counted: "countedOnce st (fst (deliver e cfg c message (st, a, w)))"
  by (simp add: deliver_def Let_def contactFailed_stats countedOnce_def
        split: prod.splits sum.splits option.splits)

lemma processContact_counted: "countedOnce st (fst (processContact e cfg template c (st, a, w)))"
  using deliver_counted [of st e cfg c _ a w]
  by (simp add: processContact_def contactFailed_stats countedOnce_def
        split: sum.splits option.splits)

lemma countedOnce_sum:
  "countedOnce st st' \<Longrightarrow>
   total st' = total st \<and> sent st' + skipped st' + failed st' = sent st + skipped st + failed st + 1"
  by (auto simp: countedOnce_def)

lemma processAll_sum:
  "total (fst (processAll e cfg template cs s)) = total (fst s) \<and>
   sent (fst (processAll e cfg template cs s)) + skipped (fst (processAll e cfg template cs s))
     + failed (fst (processAll e cfg template cs s))
   = sent (fst s) + skipped (fst s) + failed (fst s) + length cs"
proof (induction cs arbitrary: s)
  case Nil
  show ?case by simp
next
  case (Cons c cs)
  obtain st a w where s: "s = (st, a, w)" by (cases s)
  from countedOnce_sum [OF processContact_counted [of st e cfg template c a w]] s
  have "total (fst (processContact e cfg template c s)) = total (fst s)"
    "sent (fst (processContact e cfg template c s)) + skipped (fst (processContact e cfg template c s))
       + failed (fst (processContact e cfg template c s))
     = sent (fst s) + skipped (fst s) + failed (fst s) + 1"
    by simp_all
  with Cons.IH [of "processContact e cfg template c s"] show ?case by simp
qed

lemma processAll_invariant:
  "total (fst (processAll e cfg template valid (initialStats valid, a, w))) = length valid \<and>
   total (fst (processAll e cfg template valid (initialStats valid, a, w)))
   = sent (fst (processAll e cfg template valid (initialStats valid, a, w)))
     + skipped (fst (processAll e cfg template valid (initialStats valid, a, w)))
     + failed (fst (processAll e cfg template valid (initialStats valid, a, w)))"
  using processAll_sum [of e cfg template valid "(initialStats valid, a, w)"]
  by (simp add: initialStats_def)

lemma noNullEntry_js_set:
  "noNullEntry obj \<Longrightarrow> v \<noteq> JNull \<Longrightarrow> noNullEntry (js_set k v obj)"
  by (induction obj) (auto simp: noNullEntry_def)

lemma markAsSent_noNull:
  assumes "markAsSent e phone message metadata t w = (r, t', w')"
    and "noNullEntry (sentMessages t)"
  shows "noNullEntry (sentMessages t')"
proof -
  from assms(1) have "t' = fst (snd (markAsSent e phone message metadata t w))" by simp
  with assms(2) show ?thesis
    by (simp add: markAsSent_sentMessages noNullEntry_js_set ledgerEntry_def)
qed

lemma contactFailed_tracker:
  "stateTracker (fst (snd (contactFailed c (st, a, w)))) = stateTracker a"
  by (simp add: contactFailed_def)

lemma deliver_noNull:
  assumes "noNullEntry (sentMessages (stateTracker a))"
  shows "noNullEntry (sentMessages (stateTracker (fst (snd (deliver e cfg c message (st, a, w))))))"
  using assms
  by (auto simp: deliver_def Let_def contactFailed_def
           split: prod.splits sum.splits option.splits dest: markAsSent_noNull)

lemma processContact_noNull:
  assumes "noNullEntry (sentMessages (stateTracker a))"
  shows "noNullEntry (sentMessages (stateTracker
           (fst (snd (processContact e cfg template c (st, a, w))))))"
  using assms deliver_noNull [OF assms, of e cfg c _ st w]
  by (simp add: processContact_def contactFailed_def split: sum.splits option.splits)

lemma processAll_noNull:
  "noNullEntry (sentMessages (stateTracker (fst (snd s)))) \<Longrightarrow>
   noNullEntry (sentMessages (stateTracker (fst (snd (processAll e cfg template cs s)))))"
proof (induction cs arbitrary: s)
  case Nil
  then show ?case by simp
next
  case (Cons c cs)
  obtain st a w where s: "s = (st, a, w)" by (cases s)
  with Cons.prems processContact_noNull [of a e cfg template c st w]
  have "noNullEntry (sentMessages (stateTracker (fst (snd (processContact e cfg template c s)))))"
    by simp
  from Cons.IH [OF this] show ?case by simp
qed

lemma getStats_ok: "noNullEntry (sentMessages t) \<Longrightarrow> \<exists>x. getStats t = Inr x"
  by (simp add: getStats_def)

lemma getStats_Inr: "getStats t = Inr x \<Longrightarrow> noNullEntry (sentMessages t)"
  by (simp add: getStats_def split: if_splits)

lemma run_returns_stats:
  assumes "run e cfg a w = (Returned (Some st), a', w')"
  shows "\<exists>contacts template a1 w1.
           contactsCsv e = Inr contacts \<and> fst (validateContacts contacts) \<noteq> [] \<and>
           (if hasTemplate cfg then loadTemplate e (templatePath cfg) else Inr []) = Inr template \<and>
           (if \<not> dryRun a then launchBrowser e a w else (None, a, w)) = (None, a1, w1) \<and>
           (st, a', w') = processAll e cfg template (fst (validateContacts contacts))
                            (initialStats (fst (validateContacts contacts)), a1, w1) \<and>
           noNullEntry (sentMessages (stateTracker a'))"
  using assms
  by (auto simp: run_def split: sum.splits prod.splits if_splits option.splits
           dest: getStats_Inr)

lemma run_reaches_loop:
  assumes "contactsCsv e = Inr contacts" and "validateContacts contacts = (valid, invalid)"
    and "valid \<noteq> []"
    and "(if hasTemplate cfg then loadTemplate e (templatePath cfg) else Inr []) = Inr template"
    and "(if \<not> dryRun a then launchBrowser e a w else (None, a, w)) = (None, a1, w1)"
    and "noNullEntry (sentMessages (stateTracker a1))"
  shows "run e cfg a w =
           (Returned (Some (fst (processAll e cfg template valid (initialStats valid, a1, w1)))),
            snd (processAll e cfg template valid (initialStats valid, a1, w1)))"
proof -
  from processAll_noNull [of "(initialStats valid, a1, w1)" e cfg template valid] assms(6)
  have "noNullEntry (sentMessages (stateTracker
          (fst (snd (processAll e cfg template valid (initialStats valid, a1, w1))))))"
    by simp
  from getStats_ok [OF this] obtain x where
    "getStats (stateTracker (fst (snd (processAll e cfg template valid (initialStats valid, a1, w1)))))
       = Inr x" ..
  with assms(1-5) show ?thesis by (simp add: run_def case_prod_beta)
qed

lemma launchBrowser_ready:
  "whatsapp a \<Longrightarrow> browserLaunch e = Ready \<Longrightarrow>
   launchBrowser e a w = (None, a\<lparr>browser := True\<rparr>, w\<lparr>trace := trace w @ [Launched]\<rparr>)"
  by (simp add: launchBrowser_def)

lemma launch_succeeds:
  assumes "dryRun a \<or> (whatsapp a \<and> browserLaunch e = Ready)"
  shows "\<exists>a1 w1. (if \<not> dryRun a then launchBrowser e a w else (None, a, w)) = (None, a1, w1)
           \<and> stateTracker a1 = stateTracker a"
  using assms by (cases "dryRun a") (auto simp: launchBrowser_ready)

text \<open>
  Claim C1.  Processing one contact raises exactly one of \<open>sent\<close>, \<open>skipped\<close> and
  \<open>failed\<close> by one and leaves the rest of the statistics alone.  For every list of
  contacts with at least one valid contact, every ledger and every behaviour of the
  transport and of the state file, the loop over the valid contacts ends with
  \<open>total = sent + skipped + failed\<close> and \<open>total\<close> the number of valid contacts;
  whenever \<open>run\<close> returns statistics they are these; and it does return them once the
  template loads, in a live run the browser starts, and no entry of the ledger is
  \<^verbatim>\<open>null\<close> (the report after the loop reads every entry).
\<close>

theorem statistics_invariant:
  assumes "contactsCsv e = Inr contacts" and "validateContacts contacts = (valid, invalid)"
    and "valid \<noteq> []"
  shows "countedOnce st (fst (processContact e cfg template c (st, a, w)))
    \<and> total (fst (processAll e cfg template valid (initialStats valid, a, w))) = length valid
    \<and> total (fst (processAll e cfg template valid (initialStats valid, a, w)))
        = sent (fst (processAll e cfg template valid (initialStats valid, a, w)))
          + skipped (fst (processAll e cfg template valid (initialStats valid, a, w)))
          + failed (fst (processAll e cfg template valid (initialStats valid, a, w)))
    \<and> (\<forall>st' a' w'. run e cfg a w = (Returned (Some st'), a', w') \<longrightarrow>
          total st' = length valid \<and> total st' = sent st' + skipped st' + failed st')
    \<and> ((hasTemplate cfg \<longrightarrow> \<not> isl (templateFile e))
         \<and> (dryRun a \<or> (whatsapp a \<and> browserLaunch e = Ready))
         \<and> noNullEntry (sentMessages (stateTracker a)) \<longrightarrow>
          (\<exists>st' a' w'. run e cfg a w = (Returned (Some st'), a', w')))"
proof (intro conjI allI impI)
  show "countedOnce st (fst (processContact e cfg template c (st, a, w)))"
    by (rule processContact_counted)
next
  show "total (fst (processAll e cfg template valid (initialStats valid, a, w))) = length valid"
    using processAll_invariant [of e cfg template valid a w] by simp
next
  show "total (fst (processAll e cfg template valid (initialStats valid, a, w)))
        = sent (fst (processAll e cfg template valid (initialStats valid, a, w)))
          + skipped (fst (processAll e cfg template valid (initialStats valid, a, w)))
          + failed (fst (processAll e cfg template valid (initialStats valid, a, w)))"
    using processAll_invariant [of e cfg template valid a w] by simp
next
  fix st' a' w'
  assume "run e cfg a w = (Returned (Some st'), a', w')"
  from run_returns_stats [OF this] assms(1,2)
  obtain tmpl a1 w1 where
    "(st', a', w') = processAll e cfg tmpl valid (initialStats valid, a1, w1)"
    by auto
  then have st': "st' = fst (processAll e cfg tmpl valid (initialStats valid, a1, w1))"
    by (metis fst_conv)
  from processAll_invariant [of e cfg tmpl valid a1 w1] st'
  show "total st' = length valid" "total st' = sent st' + skipped st' + failed st'"
    by simp_all
next
  assume h: "(hasTemplate cfg \<longrightarrow> \<not> isl (templateFile e))
         \<and> (dryRun a \<or> (whatsapp a \<and> browserLaunch e = Ready))
         \<and> noNullEntry (sentMessages (stateTracker a))"
  have "\<exists>tmpl. (if hasTemplate cfg then loadTemplate e (templatePath cfg) else Inr []) = Inr tmpl"
  proof (cases "hasTemplate cfg")
    case True
    with h obtain b where "templateFile e = Inr b" by (cases "templateFile e") auto
    with True show ?thesis by (simp add: loadTemplate_def)
  next
    case False
    then show ?thesis by simp
  qed
  then obtain tmpl where t: "(if hasTemplate cfg then loadTemplate e (templatePath cfg) else Inr []) = Inr tmpl"
    by blast
  from h launch_succeeds [of a e w] obtain a1 w1 where
    l: "(if \<not> dryRun a then launchBrowser e a w else (None, a, w)) = (None, a1, w1)"
    and "stateTracker a1 = stateTracker a"
    by blast
  with h have "noNullEntry (sentMessages (stateTracker a1))" by simp
  from run_reaches_loop [OF assms t l this]
  show "\<exists>st' a' w'. run e cfg a w = (Returned (Some st'), a', w')"
    by (metis prod.collapse)
qed

lemma demo_valid: "validateContacts twoContacts = (twoContacts, [])"
  by code_simp

lemma flaky_run_stats:
  "fst (run flakyEnv demoConfig demoApp demoWorld)
     = Returned (Some \<lparr>total = 2, sent = 1, skipped = 0, failed = 1\<rparr>)"
  by code_simp

theorem statistics_invariant_witness:
  "contactsCsv flakyEnv = Inr twoContacts \<and> validateContacts twoContacts = (twoContacts, [])
   \<and> twoContacts \<noteq> []
   \<and> fst (run flakyEnv demoConfig demoApp demoWorld)
        = Returned (Some \<lparr>total = 2, sent = 1, skipped = 0, failed = 1\<rparr>)
   \<and> total \<lparr>total = 2, sent = 1, skipped = 0, failed = 1\<rparr> = length twoContacts
   \<and> total \<lparr>total = 2, sent = 1, skipped = 0, failed = 1\<rparr>
        = sent \<lparr>total = 2, sent = 1, skipped = 0, failed = 1\<rparr>
          + skipped \<lparr>total = 2, sent = 1, skipped = 0, failed = 1\<rparr>
          + failed \<lparr>total = 2, sent = 1, skipped = 0, failed = 1\<rparr>"
proof -
  have csv: "contactsCsv flakyEnv = Inr twoContacts"
    by (simp add: flakyEnv_def demoEnv_def)
  have ne: "twoContacts \<noteq> []" by (simp add: twoContacts_def)
  obtain a' w' where r: "run flakyEnv demoConfig demoApp demoWorld
      = (Returned (Some \<lparr>total = 2, sent = 1, skipped = 0, failed = 1\<rparr>), a', w')"
    using flaky_run_stats by (metis prod.collapse)
  note inst = statistics_invariant [OF csv demo_valid ne, where cfg = demoConfig and a = demoApp
        and w = demoWorld,
      THEN conjunct2, THEN conjunct2, THEN conjunct2, THEN conjunct1, rule_format, OF r]
  from inst csv demo_valid ne flaky_run_stats show ?thesis by simp
qed

subsection \<open>Dry run\<close>


















subsection \<open>What a step leaves on disk\<close>







lemma disk_contactFailed: "disk (snd (snd (contactFailed c (st, a, w)))) = disk w"
  by (simp add: contactFailed_def takeScreenshot_def)

lemma save_failure:
  "writeFailure e (writeCount w) = Some err \<Longrightarrow>
   fst (save e t w) = Some err \<and> disk (snd (snd (save e t w))) = disk w"
  by (simp add: save_def Let_def)

lemma save_success:
  "writeFailure e (writeCount w) = None \<Longrightarrow>
   fst (save e t w) = None \<and> disk (snd (snd (save e t w))) = Stored (fst (snd (save e t w)))"
  by (simp add: save_def Let_def)





lemma markAsSent_failure:
  "writeFailure e (writeCount w) = Some err \<Longrightarrow>
   fst (markAsSent e phone message metadata t w) = Some err \<and>
   disk (snd (snd (markAsSent e phone message metadata t w))) = disk w"
  by (simp add: markAsSent_def Let_def save_failure)

lemma markAsSent_success:
  "writeFailure e (writeCount w) = None \<Longrightarrow>
   fst (markAsSent e phone message metadata t w) = None \<and>
   disk (snd (snd (markAsSent e phone message metadata t w)))
     = Stored (fst (snd (markAsSent e phone message metadata t w)))"
  by (simp add: markAsSent_def Let_def save_success)

lemma js_get_set:
  "js_get (js_set k v obj) k' = (if k' = k then Some v else js_get obj k')"
  by (simp add: js_get_set_same js_get_set_other)

lemma markAsSent_recorded:
  "recorded (sentMessages (fst (snd (markAsSent e phone message metadata t w))))
     (generateHash e phone message)"
  by (simp add: markAsSent_sentMessages recorded_def js_get_set ledgerEntry_def)

lemma markAsSent_recorded_mono:
  "recorded (sentMessages t) h \<Longrightarrow>
   recorded (sentMessages (fst (snd (markAsSent e phone message metadata t w)))) h"
  by (simp add: markAsSent_sentMessages recorded_def js_get_set ledgerEntry_def)








subsection \<open>Loading the ledger and the exit code\<close>













subsection \<open>A second run over the same contacts\<close>

lemma applyPatterns_env:
  "regexReplace e2 = regexReplace e \<Longrightarrow> applyPatterns e2 ps v r = applyPatterns e ps v r"
  by (induction ps arbitrary: r) (simp_all split: sum.splits)

lemma renderFields_env:
  "regexReplace e2 = regexReplace e \<Longrightarrow> renderFields e2 c fs r = renderFields e c fs r"
  by (induction fs arbitrary: r) (simp_all add: applyPatterns_env [of e2 e] split: sum.splits)

lemma renderTemplate_env:
  "regexReplace e2 = regexReplace e \<Longrightarrow> renderTemplate e2 template c = renderTemplate e template c"
  by (simp add: renderTemplate_def renderFields_env [of e2 e])

lemma generateHash_env:
  "sha256 e2 = sha256 e \<Longrightarrow> generateHash e2 phone message = generateHash e phone message"
  by (simp add: generateHash_def)

lemma loadTemplate_env: "templateFile e2 = templateFile e \<Longrightarrow> loadTemplate e2 = loadTemplate e"
  by (simp add: loadTemplate_def fun_eq_iff)

lemma recorded_set_mono: "recorded ledger h \<Longrightarrow> recorded (js_set k (JObj entry) ledger) h"
  by (simp add: recorded_def js_get_set)

lemma markAsSent_result:
  assumes "markAsSent e phone message metadata t w = (r, t', w')"
  shows "recorded (sentMessages t') (generateHash e phone message)"
    and "recorded (sentMessages t) h \<Longrightarrow> recorded (sentMessages t') h"
    and "r = None \<Longrightarrow> disk w' = Stored t'"
proof -
  from assms have t': "t' = fst (snd (markAsSent e phone message metadata t w))"
    and w': "w' = snd (snd (markAsSent e phone message metadata t w))"
    and r: "r = fst (markAsSent e phone message metadata t w)"
    by simp_all
  show "recorded (sentMessages t') (generateHash e phone message)"
    unfolding t' by (rule markAsSent_recorded)
  show "recorded (sentMessages t) h \<Longrightarrow> recorded (sentMessages t') h"
    unfolding t' by (rule markAsSent_recorded_mono)
  show "disk w' = Stored t'" if "r = None"
  proof (cases "writeFailure e (writeCount w)")
    case None
    from markAsSent_success [OF None, of phone message metadata t] t' w' show ?thesis by simp
  next
    case (Some err)
    from markAsSent_failure [OF Some, of phone message metadata t] r that show ?thesis by simp
  qed
qed

lemma contactFailed_result:
  "contactFailed c (st, a, w) = (st', a', w') \<Longrightarrow> sent st' = sent st \<and> a' = a"
  by (auto simp: contactFailed_def)

lemma deliver_unfold:
  assumes "wait e (rateLimiter a) w = (rl, w1)"
  shows "deliver e cfg c message (st, a, w) =
     (case renderCaption e cfg c of
        Inl err \<Rightarrow> contactFailed c (st, a\<lparr>rateLimiter := rl\<rparr>, w1)
      | Inr caption \<Rightarrow>
          (case retryWithBackoff e
                  (transportSend e (a\<lparr>rateLimiter := rl\<rparr>) (contactPhone c) message
                     (truthyText (image_path cfg)) caption) (retry cfg) w1 of
             (Inl err, w2) \<Rightarrow> contactFailed c (st, a\<lparr>rateLimiter := rl\<rparr>, w2)
           | (Inr u, w2) \<Rightarrow>
               (case markAsSent e (contactPhone c) message [(''contact'', JObj c)]
                       (stateTracker (a\<lparr>rateLimiter := rl\<rparr>)) w2 of
                  (Some err, t, w3) \<Rightarrow>
                    contactFailed c (st, a\<lparr>rateLimiter := rl, stateTracker := t\<rparr>, w3)
                | (None, t, w3) \<Rightarrow>
                    (st\<lparr>sent := sent st + 1\<rparr>, a\<lparr>rateLimiter := rl, stateTracker := t\<rparr>, w3))))"
  using assms by (simp add: deliver_def Let_def)

lemma stepOk_failed:
  "recorded (sentMessages (stateTracker a)) h \<longrightarrow> recorded (sentMessages (stateTracker a1)) h \<Longrightarrow>
   dryRun a1 = dryRun a \<Longrightarrow>
   stepOk e c message h (st, a, w) (contactFailed c (st, a1, w1))"
  by (simp add: stepOk_def contactFailed_def)

lemma deliver_stepOk: "stepOk e c message h (st, a, w) (deliver e cfg c message (st, a, w))"
proof -
  obtain rl w1 where wt: "wait e (rateLimiter a) w = (rl, w1)"
    by (cases "wait e (rateLimiter a) w")
  let ?a1 = "a\<lparr>rateLimiter := rl\<rparr>"
  show ?thesis
  proof (cases "renderCaption e cfg c")
    case (Inl err)
    then show ?thesis by (simp add: deliver_unfold [OF wt] stepOk_failed)
  next
    case (Inr caption)
    let ?rt = "retryWithBackoff e
                 (transportSend e ?a1 (contactPhone c) message (truthyText (image_path cfg)) caption)
                 (retry cfg) w1"
    obtain res w2 where rt: "?rt = (res, w2)" by (cases ?rt)
    show ?thesis
    proof (cases res)
      case (Inl err)
      with Inr rt show ?thesis by (simp add: deliver_unfold [OF wt] stepOk_failed)
    next
      case u: (Inr u)
      let ?m = "markAsSent e (contactPhone c) message [(''contact'', JObj c)] (stateTracker ?a1) w2"
      obtain r t w3 where m: "?m = (r, t, w3)" by (cases ?m)
      note mr = markAsSent_result [OF m]
      show ?thesis
      proof (cases r)
        case None
        with Inr rt u m have "deliver e cfg c message (st, a, w)
            = (st\<lparr>sent := sent st + 1\<rparr>, a\<lparr>rateLimiter := rl, stateTracker := t\<rparr>, w3)"
          by (simp add: deliver_unfold [OF wt])
        with mr None show ?thesis by (simp add: stepOk_def)
      next
        case (Some err)
        with Inr rt u m have "deliver e cfg c message (st, a, w)
            = contactFailed c (st, a\<lparr>rateLimiter := rl, stateTracker := t\<rparr>, w3)"
          by (simp add: deliver_unfold [OF wt])
        with mr(2) show ?thesis by (simp add: stepOk_failed)
      qed
    qed
  qed
qed

lemma stepOk_skip:
  "stepOk e c message h (st, a, w) (st\<lparr>skipped := skipped st + 1\<rparr>, a, w)"
  by (simp add: stepOk_def)

lemma processContact_stepOk:
  assumes "\<not> dryRun a" and "renderTemplate e template c = Inr message"
  shows "stepOk e c message h (st, a, w) (processContact e cfg template c (st, a, w))"
proof (cases "wasMessageSent e (stateTracker a) (contactPhone c) message")
  case True
  show ?thesis
  proof (cases "getMessageInfo e (stateTracker a) (contactPhone c) message")
    case None
    with True assms show ?thesis by (simp add: processContact_def stepOk_failed)
  next
    case (Some info)
    with True assms stepOk_skip [of e c message h st a w] show ?thesis
      by (simp add: processContact_def)
  qed
next
  case False
  with assms deliver_stepOk [of e c message h st a w cfg] show ?thesis
    by (simp add: processContact_def)
qed

lemma processContact_render_failed:
  "renderTemplate e template c = Inl err \<Longrightarrow>
   processContact e cfg template c (st, a, w) = contactFailed c (st, a, w)"
  by (simp add: processContact_def)

lemma processContact_live:
  assumes "\<not> dryRun a" and "processContact e cfg template c (st, a, w) = (st', a', w')"
  shows "\<not> dryRun a'
    \<and> (\<forall>h. recorded (sentMessages (stateTracker a)) h \<longrightarrow> recorded (sentMessages (stateTracker a')) h)
    \<and> sent st' \<le> sent st + 1
    \<and> (sent st' = sent st + 1 \<longrightarrow>
          (\<exists>message. renderTemplate e template c = Inr message
             \<and> recorded (sentMessages (stateTracker a')) (generateHash e (contactPhone c) message)
             \<and> disk w' = Stored (stateTracker a')))"
proof -
  from processContact_counted [of st e cfg template c a w] assms(2)
  have le: "sent st' \<le> sent st + 1" by (auto simp: countedOnce_def)
  show ?thesis
  proof (cases "renderTemplate e template c")
    case (Inl err)
    from processContact_render_failed [OF Inl, of cfg st a w] assms(2)
    have "contactFailed c (st, a, w) = (st', a', w')" by simp
    from contactFailed_result [OF this] assms(1) le show ?thesis by simp
  next
    case (Inr message)
    have "stepOk e c message h (st, a, w) (st', a', w')" for h
      using processContact_stepOk [OF assms(1) Inr, of h st w cfg] assms(2) by simp
    then have "dryRun a' = dryRun a"
      and "\<forall>h. recorded (sentMessages (stateTracker a)) h \<longrightarrow> recorded (sentMessages (stateTracker a')) h"
      and "sent st' = sent st + 1 \<longrightarrow>
              recorded (sentMessages (stateTracker a')) (generateHash e (contactPhone c) message)
              \<and> disk w' = Stored (stateTracker a')"
      by (simp_all add: stepOk_def)
    with assms(1) le Inr show ?thesis by simp
  qed
qed

lemma processAll_live:
  assumes "\<not> dryRun a" and "processAll e cfg template cs (st, a, w) = (st', a', w')"
  shows "\<not> dryRun a'
    \<and> (\<forall>h. recorded (sentMessages (stateTracker a)) h \<longrightarrow> recorded (sentMessages (stateTracker a')) h)
    \<and> sent st' \<le> sent st + length cs"
  using assms
proof (induction cs arbitrary: st a w)
  case Nil
  then show ?case by simp
next
  case (Cons c cs)
  obtain st1 a1 w1 where s: "processContact e cfg template c (st, a, w) = (st1, a1, w1)"
    by (cases "processContact e cfg template c (st, a, w)")
  note one = processContact_live [OF Cons.prems(1) s]
  from one have d1: "\<not> dryRun a1" by simp
  from Cons.prems(2) s have rest: "processAll e cfg template cs (st1, a1, w1) = (st', a', w')"
    by simp
  note more = Cons.IH [OF d1 rest]
  from one more have "sent st' \<le> sent st + length (c # cs)" by simp
  moreover from one more
  have "\<forall>h. recorded (sentMessages (stateTracker a)) h \<longrightarrow> recorded (sentMessages (stateTracker a')) h"
    by blast
  ultimately show ?case using more by blast
qed

lemma processAll_all_sent:
  assumes "\<not> dryRun a" and "processAll e cfg template cs (st, a, w) = (st', a', w')"
    and "sent st' = sent st + length cs"
  shows "(\<forall>c \<in> set cs. \<exists>message. renderTemplate e template c = Inr message
            \<and> recorded (sentMessages (stateTracker a')) (generateHash e (contactPhone c) message))
    \<and> (cs \<noteq> [] \<longrightarrow> disk w' = Stored (stateTracker a'))"
  using assms
proof (induction cs arbitrary: st a w)
  case Nil
  then show ?case by simp
next
  case (Cons c cs)
  obtain st1 a1 w1 where s: "processContact e cfg template c (st, a, w) = (st1, a1, w1)"
    by (cases "processContact e cfg template c (st, a, w)")
  note one = processContact_live [OF Cons.prems(1) s]
  from one have d1: "\<not> dryRun a1" by simp
  from Cons.prems(2) s have rest: "processAll e cfg template cs (st1, a1, w1) = (st', a', w')"
    by simp
  note more = processAll_live [OF d1 rest]
  from one more Cons.prems(3) have s1: "sent st1 = sent st + 1" and s2: "sent st' = sent st1 + length cs"
    by simp_all
  from one s1 obtain message where m: "renderTemplate e template c = Inr message"
    and r1: "recorded (sentMessages (stateTracker a1)) (generateHash e (contactPhone c) message)"
    and dk: "disk w1 = Stored (stateTracker a1)"
    by blast
  from more r1 have r': "recorded (sentMessages (stateTracker a')) (generateHash e (contactPhone c) message)"
    by blast
  note ih = Cons.IH [OF d1 rest s2]
  have "disk w' = Stored (stateTracker a')"
  proof (cases "cs = []")
    case True
    with rest dk show ?thesis by simp
  next
    case False
    with ih show ?thesis by blast
  qed
  with m r' ih show ?case by auto
qed

lemma recorded_lookup:
  assumes "recorded (sentMessages t) (generateHash e phone message)"
  shows "wasMessageSent e t phone message"
    and "\<exists>info. getMessageInfo e t phone message = Some info"
proof -
  from assms obtain entry where
    g: "js_get (sentMessages t) (generateHash e phone message) = Some (JObj entry)"
    by (auto simp: recorded_def split: option.splits jsval.splits)
  from js_get_Some_key [OF g] show "wasMessageSent e t phone message"
    by (simp add: wasMessageSent_def js_has_def)
  from g show "\<exists>info. getMessageInfo e t phone message = Some info"
    by (simp add: getMessageInfo_def)
qed

lemma processContact_skips:
  assumes "renderTemplate e template c = Inr message"
    and "recorded (sentMessages (stateTracker a)) (generateHash e (contactPhone c) message)"
  shows "processContact e cfg template c (st, a, w) = (st\<lparr>skipped := skipped st + 1\<rparr>, a, w)"
proof -
  from recorded_lookup [OF assms(2)] obtain info where
    "wasMessageSent e (stateTracker a) (contactPhone c) message"
    "getMessageInfo e (stateTracker a) (contactPhone c) message = Some info"
    by blast
  with assms(1) show ?thesis by (simp add: processContact_def)
qed

lemma processAll_skips:
  assumes "\<forall>c \<in> set cs. \<exists>message. renderTemplate e template c = Inr message
            \<and> recorded (sentMessages (stateTracker a)) (generateHash e (contactPhone c) message)"
  shows "processAll e cfg template cs (st, a, w) = (st\<lparr>skipped := skipped st + length cs\<rparr>, a, w)"
  using assms
proof (induction cs arbitrary: st)
  case Nil
  show ?case by simp
next
  case (Cons c cs)
  then obtain message where "renderTemplate e template c = Inr message"
    "recorded (sentMessages (stateTracker a)) (generateHash e (contactPhone c) message)"
    by auto
  from processContact_skips [OF this, of cfg st w] Cons.IH [of "st\<lparr>skipped := skipped st + 1\<rparr>"]
    Cons.prems
  show ?case by simp
qed

lemma launchBrowser_frame:
  assumes "(if \<not> dryRun a then launchBrowser e a w else (None, a, w)) = (None, a', w')"
  shows "stateTracker a' = stateTracker a \<and> rateLimiter a' = rateLimiter a \<and> dryRun a' = dryRun a
    \<and> disk w' = disk w \<and> sendCount w' = sendCount w \<and> writeCount w' = writeCount w
    \<and> (trace w' = trace w \<or> trace w' = trace w @ [Launched])"
  using assms by (auto simp: launchBrowser_def split: if_splits launch.splits)

lemma load_stored: "disk w = Stored t \<Longrightarrow> load e t0 w = (None, t, w)"
  by (simp add: load_def)

text \<open>
  Claim C6.  Let a live run return statistics with every contact sent.  Then a second run
  over the same contacts and template, started on the ledger the first run produced (the
  state file the first run leaves holds exactly that ledger, and \<open>load\<close> reads it back),
  with the same digest and regular-expression engine and whatever the transport and the
  writes would do, returns \<open>total n, sent 0, skipped n, failed 0\<close>, where \<open>n\<close> is the
  first run's total.  Apart from starting the browser in a live run it changes nothing: no
  transport call, no write, the ledger in memory and on disk as before.
\<close>

theorem second_run_skips_all:
  assumes "run e cfg a w = (Returned (Some st), a1, w1)" and "\<not> dryRun a" and "sent st = total st"
    and "sha256 e2 = sha256 e" and "regexReplace e2 = regexReplace e"
    and "contactsCsv e2 = contactsCsv e" and "templateFile e2 = templateFile e"
    and "sentMessages (stateTracker a2) = sentMessages (stateTracker a1)"
    and "(if \<not> dryRun a2 then launchBrowser e2 a2 w2 else (None, a2, w2)) = (None, a3, w3)"
  shows "run e2 cfg a2 w2 =
           (Returned (Some \<lparr>total = total st, sent = 0, skipped = total st, failed = 0\<rparr>), a3, w3)
    \<and> stateTracker a3 = stateTracker a2 \<and> rateLimiter a3 = rateLimiter a2
    \<and> disk w3 = disk w2 \<and> sendCount w3 = sendCount w2 \<and> writeCount w3 = writeCount w2
    \<and> (trace w3 = trace w2 \<or> trace w3 = trace w2 @ [Launched])
    \<and> disk w1 = Stored (stateTracker a1)
    \<and> load e2 newStateTracker w1 = (None, stateTracker a1, w1)"
proof -
  from run_returns_stats [OF assms(1)]
  obtain contacts template a0 w0 where csv: "contactsCsv e = Inr contacts"
    and ne: "fst (validateContacts contacts) \<noteq> []"
    and tmpl: "(if hasTemplate cfg then loadTemplate e (templatePath cfg) else Inr []) = Inr template"
    and launch: "(if \<not> dryRun a then launchBrowser e a w else (None, a, w)) = (None, a0, w0)"
    and loop: "(st, a1, w1) = processAll e cfg template (fst (validateContacts contacts))
                            (initialStats (fst (validateContacts contacts)), a0, w0)"
    and nn: "noNullEntry (sentMessages (stateTracker a1))"
    by blast
  let ?valid = "fst (validateContacts contacts)"
  obtain invalid where v: "validateContacts contacts = (?valid, invalid)"
    by (cases "validateContacts contacts") simp
  from launchBrowser_frame [OF launch] assms(2) have d0: "\<not> dryRun a0" by simp
  from loop have loop': "processAll e cfg template ?valid (initialStats ?valid, a0, w0) = (st, a1, w1)"
    by simp
  from processAll_invariant [of e cfg template ?valid a0 w0] loop'
  have tot: "total st = length ?valid" by simp
  with assms(3) have "sent st = sent (initialStats ?valid) + length ?valid"
    by (simp add: initialStats_def)
  from processAll_all_sent [OF d0 loop' this] ne
  have rec: "\<forall>c \<in> set ?valid. \<exists>message. renderTemplate e template c = Inr message
            \<and> recorded (sentMessages (stateTracker a1)) (generateHash e (contactPhone c) message)"
    and dk: "disk w1 = Stored (stateTracker a1)"
    by blast+
  note fr = launchBrowser_frame [OF assms(9)]
  from rec assms(4,5,8) fr
  have rec2: "\<forall>c \<in> set ?valid. \<exists>message. renderTemplate e2 template c = Inr message
            \<and> recorded (sentMessages (stateTracker a3)) (generateHash e2 (contactPhone c) message)"
    by (simp add: renderTemplate_env [of e2 e] generateHash_env [of e2 e])
  from processAll_skips [OF rec2, of cfg "initialStats ?valid" w3]
  have skip: "processAll e2 cfg template ?valid (initialStats ?valid, a3, w3)
      = (\<lparr>total = total st, sent = 0, skipped = total st, failed = 0\<rparr>, a3, w3)"
    by (simp add: initialStats_def tot)
  from csv assms(6) have csv2: "contactsCsv e2 = Inr contacts" by simp
  from assms(7) have "loadTemplate e2 = loadTemplate e" by (rule loadTemplate_env)
  with tmpl have tmpl2: "(if hasTemplate cfg then loadTemplate e2 (templatePath cfg) else Inr []) = Inr template"
    by (cases "hasTemplate cfg") simp_all
  from nn assms(8) fr have "noNullEntry (sentMessages (stateTracker a3))" by simp
  from run_reaches_loop [OF csv2 v ne tmpl2 assms(9) this] skip
  have "run e2 cfg a2 w2 =
           (Returned (Some \<lparr>total = total st, sent = 0, skipped = total st, failed = 0\<rparr>), a3, w3)"
    by simp
  with fr dk load_stored [OF dk, of e2 newStateTracker] show ?thesis by simp
qed

lemma first_run_stats:
  "fst firstRun = Returned (Some \<lparr>total = 2, sent = 2, skipped = 0, failed = 0\<rparr>)"
  by code_simp

theorem second_run_skips_all_witness:
  "fst firstRun = Returned (Some \<lparr>total = 2, sent = 2, skipped = 0, failed = 0\<rparr>)
   \<and> \<not> dryRun demoApp
   \<and> sent \<lparr>total = 2, sent = 2, skipped = 0, failed = 0\<rparr>
       = total \<lparr>total = 2, sent = 2, skipped = 0, failed = 0\<rparr>
   \<and> sha256 flakyEnv = sha256 demoEnv \<and> regexReplace flakyEnv = regexReplace demoEnv
   \<and> contactsCsv flakyEnv = contactsCsv demoEnv \<and> templateFile flakyEnv = templateFile demoEnv
   \<and> fst (run flakyEnv demoConfig (demoApp\<lparr>stateTracker := stateTracker (fst (snd firstRun))\<rparr>)
          (snd (snd firstRun)))
       = Returned (Some \<lparr>total = 2, sent = 0, skipped = 2, failed = 0\<rparr>)
   \<and> disk (snd (snd firstRun)) = Stored (stateTracker (fst (snd firstRun)))"
proof -
  let ?st = "\<lparr>total = 2, sent = 2, skipped = 0, failed = 0\<rparr>"
  let ?a1 = "fst (snd firstRun)" and ?w1 = "snd (snd firstRun)"
  let ?a2 = "demoApp\<lparr>stateTracker := stateTracker ?a1\<rparr>"
  have h1: "run demoEnv demoConfig demoApp demoWorld = (Returned (Some ?st), ?a1, ?w1)"
    using first_run_stats by (metis firstRun_def prod.collapse)
  have h2: "\<not> dryRun demoApp" by (simp add: demoApp_def)
  have h3: "sent ?st = total ?st" by simp
  have env: "sha256 flakyEnv = sha256 demoEnv" "regexReplace flakyEnv = regexReplace demoEnv"
    "contactsCsv flakyEnv = contactsCsv demoEnv" "templateFile flakyEnv = templateFile demoEnv"
    by (simp_all add: flakyEnv_def)
  have h8: "sentMessages (stateTracker ?a2) = sentMessages (stateTracker ?a1)" by simp
  have h9: "(if \<not> dryRun ?a2 then launchBrowser flakyEnv ?a2 ?w1 else (None, ?a2, ?w1))
      = (None, ?a2\<lparr>browser := True\<rparr>, ?w1\<lparr>trace := trace ?w1 @ [Launched]\<rparr>)"
    by (simp add: launchBrowser_def demoApp_def flakyEnv_def demoEnv_def)
  note inst = second_run_skips_all [OF h1 h2 h3 env h8 h9]
  from inst have "run flakyEnv demoConfig ?a2 ?w1 =
      (Returned (Some \<lparr>total = total ?st, sent = 0, skipped = total ?st, failed = 0\<rparr>),
       ?a2\<lparr>browser := True\<rparr>, ?w1\<lparr>trace := trace ?w1 @ [Launched]\<rparr>)"
    by (rule conjunct1)
  then have r2: "fst (run flakyEnv demoConfig ?a2 ?w1)
       = Returned (Some \<lparr>total = 2, sent = 0, skipped = 2, failed = 0\<rparr>)"
    by simp
  from inst have dk: "disk ?w1 = Stored (stateTracker ?a1)" by simp
  from first_run_stats h2 h3 env r2 dk show ?thesis by simp
qed

end
